theory Spec2Isabelle
  imports Complex_Main "HOL-Library.AList"
begin

section \<open>The Bluesky ingestion pipeline (aggregator/bsky/bsky.py)\<close>

text \<open>
  A shallow embedding of \<^verbatim>\<open>bsky.py\<close>: the values \<^verbatim>\<open>json.loads\<close> produces, the
  exceptions the code raises and catches, \<^verbatim>\<open>MessageProcessor\<close> (message handling,
  language filter, enrichment, document id, sink write) and \<^verbatim>\<open>WebSocketClient\<close>
  (the reconnect loop). Every function takes the state it mutates and returns it
  updated; a raised exception is a value.
\<close>

subsection \<open>Python values and exceptions\<close>

text \<open>
  A timezone-aware UTC \<^verbatim>\<open>datetime\<close> has microsecond resolution, so it is
  represented by its number of microseconds since the epoch.
\<close>

datatype datetime = UtcMicros int

text \<open>
  The values of a decoded message: what \<^verbatim>\<open>json.loads\<close> returns, plus the
  \<^verbatim>\<open>datetime\<close> that \<^verbatim>\<open>process_message\<close> stores under \<^verbatim>\<open>record_time\<close>. A dict is
  an association list in insertion order. A Python float is represented by the rational
  it denotes (infinities and NaN are not represented).
\<close>

datatype pyval =
    PNone
  | PBool bool
  | PInt int
  | PFloat rat
  | PStr string
  | PList "pyval list"
  | PDict "(string \<times> pyval) list"
  | PDatetime datetime

text \<open>
  The exception classes that occur. All but the last two derive from \<^verbatim>\<open>Exception\<close>;
  \<^verbatim>\<open>CancelledError\<close> derives from \<^verbatim>\<open>BaseException\<close> only, so
  \<^verbatim>\<open>except Exception\<close> does not catch it. \<^verbatim>\<open>JSONDecodeError\<close> is a subclass of
  \<^verbatim>\<open>ValueError\<close>.
\<close>

datatype exn =
    AttributeError
  | TypeError
  | ValueError
  | JSONDecodeError
  | OverflowError
  | IndexError
  | OSError
  | TimeoutError
  | ConnectionError
  | ConnectionClosedError
  | InvalidStatus
  | OtherException string
  | CancelledError
  | OtherBaseException string

fun is_Exception :: "exn \<Rightarrow> bool" where
  "is_Exception CancelledError = False"
| "is_Exception (OtherBaseException _) = False"
| "is_Exception _ = True"

fun is_ValueError :: "exn \<Rightarrow> bool" where
  "is_ValueError ValueError = True"
| "is_ValueError JSONDecodeError = True"
| "is_ValueError _ = False"

text \<open>Truth value testing (\<^verbatim>\<open>if x:\<close>, \<^verbatim>\<open>not x\<close>).\<close>

fun truthy :: "pyval \<Rightarrow> bool" where
  "truthy PNone = False"
| "truthy (PBool b) = b"
| "truthy (PInt n) = (n \<noteq> 0)"
| "truthy (PFloat r) = (r \<noteq> 0)"
| "truthy (PStr s) = (s \<noteq> [])"
| "truthy (PList xs) = (xs \<noteq> [])"
| "truthy (PDict kvs) = (kvs \<noteq> [])"
| "truthy (PDatetime _) = True"

text \<open>\<^verbatim>\<open>x.get(key, default)\<close>: only a dict has the method.\<close>

definition dict_get :: "(string \<times> pyval) list \<Rightarrow> string \<Rightarrow> pyval \<Rightarrow> pyval" where
  "dict_get kvs k dflt = (case map_of kvs k of None \<Rightarrow> dflt | Some v \<Rightarrow> v)"

fun py_get :: "pyval \<Rightarrow> string \<Rightarrow> pyval \<Rightarrow> exn + pyval" where
  "py_get (PDict kvs) k dflt = Inr (dict_get kvs k dflt)"
| "py_get _ k dflt = Inl AttributeError"

text \<open>
  \<^verbatim>\<open>x[key] = v\<close> with a string key: a dict replaces the value of an existing key in
  place and appends a new key; nothing else among these values accepts the assignment.
\<close>

fun py_setitem :: "pyval \<Rightarrow> string \<Rightarrow> pyval \<Rightarrow> exn + pyval" where
  "py_setitem (PDict kvs) k v = Inr (PDict (AList.update k v kvs))"
| "py_setitem _ k v = Inl TypeError"

text \<open>
  The items a \<^verbatim>\<open>for\<close> loop draws from a value: the elements of a list, the
  one-character strings of a string, the keys of a dict; the rest is not iterable.
\<close>

fun py_iter :: "pyval \<Rightarrow> exn + pyval list" where
  "py_iter (PList xs) = Inr xs"
| "py_iter (PStr s) = Inr (map (\<lambda>c. PStr [c]) s)"
| "py_iter (PDict kvs) = Inr (map (\<lambda>kv. PStr (fst kv)) kvs)"
| "py_iter _ = Inl TypeError"

text \<open>Decimal digits of a natural number and \<^verbatim>\<open>str\<close> of an int.\<close>

fun digits :: "nat \<Rightarrow> string" where
  "digits n = (if n < 10 then [''0123456789'' ! n]
               else digits (n div 10) @ [''0123456789'' ! (n mod 10)])"

definition str_int :: "int \<Rightarrow> string" where
  "str_int i = (if i < 0 then CHR ''-'' # digits (nat (- i)) else digits (nat i))"

subsection \<open>The environment\<close>

text \<open>
  What the code calls and does not define:
  \<^item> \<open>json_loads\<close>: \<^verbatim>\<open>json.loads\<close>, a decoded value or the exception raised;
  \<^item> \<open>utc_now\<close>: \<^verbatim>\<open>datetime.now(tz=timezone.utc)\<close>;
  \<^item> \<open>fromtimestamp\<close>: \<^verbatim>\<open>datetime.fromtimestamp(q, tz=timezone.utc)\<close> for the quotient
    \<open>q\<close> of \<^verbatim>\<open>time_us / 1_000_000\<close>, including the rounding of the quotient to a float
    (which raises \<^verbatim>\<open>OverflowError\<close> when the quotient is too large for a float) and the
    range checks of the library;
  \<^item> \<open>py_repr\<close>: the text \<^verbatim>\<open>str\<close> gives for a float, a list, a dict or a datetime.
\<close>

record env =
  json_loads :: "string \<Rightarrow> exn + pyval"
  utc_now :: datetime
  fromtimestamp :: "rat \<Rightarrow> exn + datetime"
  py_repr :: "pyval \<Rightarrow> string"

text \<open>The conversion of a replacement field \<^verbatim>\<open>{x}\<close> of an f-string: \<^verbatim>\<open>str(x)\<close>.\<close>

fun py_format :: "env \<Rightarrow> pyval \<Rightarrow> string" where
  "py_format E (PStr s) = s"
| "py_format E (PInt i) = str_int i"
| "py_format E PNone = ''None''"
| "py_format E (PBool b) = (if b then ''True'' else ''False'')"
| "py_format E v = py_repr E v"

text \<open>
  \<^verbatim>\<open>time_us / 1_000_000\<close>: defined on numbers (a bool is an int), a
  \<^verbatim>\<open>TypeError\<close> on everything else.
\<close>

fun true_divide_million :: "pyval \<Rightarrow> exn + rat" where
  "true_divide_million (PInt n) = Inr (of_int n / 1000000)"
| "true_divide_million (PBool b) = Inr ((if b then 1 else 0) / 1000000)"
| "true_divide_million (PFloat r) = Inr (r / 1000000)"
| "true_divide_million _ = Inl TypeError"

subsection \<open>Effects of the message processor\<close>

datatype log_level = INFO | WARNING | ERROR

text \<open>
  The observable effects of the workers: the calls of \<^verbatim>\<open>es_client.index\<close> as
  (id, document) in order, the log records (level and the constant part of the message),
  the number of \<^verbatim>\<open>task_done\<close> calls, and the content of the index.
\<close>

record world =
  index_calls :: "(pyval \<times> pyval) list"
  es_store :: "(pyval \<times> pyval) list"
  logs :: "(log_level \<times> string) list"
  tasks_done :: nat

definition logging :: "log_level \<Rightarrow> string \<Rightarrow> world \<Rightarrow> world" where
  "logging lvl msg w = w\<lparr>logs := logs w @ [(lvl, msg)]\<rparr>"

definition world0 :: world where
  "world0 = \<lparr>index_calls = [], es_store = [], logs = [], tasks_done = 0\<rparr>"

text \<open>
  \<^verbatim>\<open>MessageProcessor\<close>. The Elasticsearch client is given by what its \<^verbatim>\<open>index\<close>
  call answers for an id and a document: \<open>None\<close> when the write is accepted, the
  exception it raises otherwise. \<open>mp_running\<close> is the field \<^verbatim>\<open>running\<close>.
\<close>

record processor =
  language_filter :: "string list"
  es_client :: "(pyval \<Rightarrow> pyval \<Rightarrow> exn option) option"
  mp_running :: bool

subsection \<open>MessageProcessor\<close>

text \<open>\<^verbatim>\<open>is_language_allowed\<close> (lines 181-184).\<close>

definition is_language_allowed :: "processor \<Rightarrow> pyval \<Rightarrow> exn + bool" where
  "is_language_allowed p langs =
     (if language_filter p = [] then Inr True
      else (case py_iter langs of
              Inl e \<Rightarrow> Inl e
            | Inr items \<Rightarrow>
                Inr (list_ex (\<lambda>lang. lang \<in> set (map PStr (language_filter p))) items)))"

text \<open>\<^verbatim>\<open>get_timestamp\<close> (lines 205-213).\<close>

definition get_timestamp :: "env \<Rightarrow> pyval \<Rightarrow> world \<Rightarrow> (exn + datetime) \<times> world" where
  "get_timestamp E time_us w =
     (if truthy time_us then
        (case (case true_divide_million time_us of
                 Inl e \<Rightarrow> Inl e
               | Inr q \<Rightarrow> fromtimestamp E q) of
           Inr t \<Rightarrow> (Inr t, w)
         | Inl e \<Rightarrow>
             if is_ValueError e \<or> e = TypeError
             then (Inr (utc_now E), logging WARNING ''Invalid timestamp format'' w)
             else (Inl e, w))
      else (Inr (utc_now E), w))"

text \<open>The expression \<^verbatim>\<open>data.get("commit", {}).get("cid", None)\<close> of line 192.\<close>

definition commit_cid :: "pyval \<Rightarrow> exn + pyval" where
  "commit_cid data =
     (case py_get data ''commit'' (PDict []) of
        Inl e \<Rightarrow> Inl e
      | Inr commit \<Rightarrow> py_get commit ''cid'' PNone)"

text \<open>The f-string of line 194.\<close>

definition composite_id :: "env \<Rightarrow> pyval \<Rightarrow> exn + pyval" where
  "composite_id E data =
     (case py_get data ''did'' (PStr []) of
        Inl e \<Rightarrow> Inl e
      | Inr did \<Rightarrow>
          (case py_get data ''time_us'' (PStr []) of
             Inl e \<Rightarrow> Inl e
           | Inr time_us \<Rightarrow> Inr (PStr (py_format E did @ ''_'' @ py_format E time_us))))"

text \<open>The document id computed in \<^verbatim>\<open>index_data\<close> (lines 192-194).\<close>

definition doc_id_of :: "env \<Rightarrow> pyval \<Rightarrow> exn + pyval" where
  "doc_id_of E data =
     (case commit_cid data of
        Inl e \<Rightarrow> Inl e
      | Inr doc_id \<Rightarrow> if \<not> truthy doc_id then composite_id E data else Inr doc_id)"

text \<open>
  \<^verbatim>\<open>index_data\<close> (lines 186-203). The result is the exception that leaves the
  function, if any. A call of \<^verbatim>\<open>es_client.index\<close> is recorded when it is made; an
  accepted write stores the document under its id, replacing what was there.
\<close>

definition index_data :: "processor \<Rightarrow> env \<Rightarrow> pyval \<Rightarrow> world \<Rightarrow> exn option \<times> world" where
  "index_data p E data w =
     (case es_client p of
        None \<Rightarrow> (None, logging ERROR ''Elasticsearch client is not initialized.'' w)
      | Some client \<Rightarrow>
          (case doc_id_of E data of
             Inl e \<Rightarrow>
               if is_Exception e then (None, logging ERROR ''Failed to index document'' w)
               else (Some e, w)
           | Inr doc_id \<Rightarrow>
               (let w1 = w\<lparr>index_calls := index_calls w @ [(doc_id, data)]\<rparr> in
                case client doc_id data of
                  None \<Rightarrow>
                    (None, logging INFO ''Indexed document ID''
                       (w1\<lparr>es_store := AList.update doc_id data (es_store w1)\<rparr>))
                | Some e \<Rightarrow>
                    if is_Exception e then (None, logging ERROR ''Failed to index document'' w1)
                    else (Some e, w1))))"

text \<open>The f-string of line 175.\<close>

definition profile_url :: "env \<Rightarrow> pyval \<Rightarrow> pyval \<Rightarrow> string" where
  "profile_url E did rkey =
     ''https://bsky.app/profile/'' @ py_format E did @ ''/post/'' @ py_format E rkey"

text \<open>
  Sequencing a step that may raise: the exception leaves the function with the state
  reached so far, a value is passed on to the rest of the body.
\<close>

definition or_raise ::
  "exn + 'a \<Rightarrow> world \<Rightarrow> ('a \<Rightarrow> exn option \<times> world) \<Rightarrow> exn option \<times> world" where
  "or_raise r w rest = (case r of Inl e \<Rightarrow> (Some e, w) | Inr v \<Rightarrow> rest v)"

text \<open>\<^verbatim>\<open>process_message\<close> (lines 164-179).\<close>

definition process_message :: "processor \<Rightarrow> env \<Rightarrow> pyval \<Rightarrow> world \<Rightarrow> exn option \<times> world" where
  "process_message p E data w =
     or_raise (py_get data ''commit'' (PDict [])) w (\<lambda>commit.
     or_raise (py_get commit ''record'' (PDict [])) w (\<lambda>record.
     or_raise (py_get record ''langs'' (PList [])) w (\<lambda>langs.
     or_raise (py_get commit ''rkey'' (PStr ''unknown'')) w (\<lambda>rkey.
     or_raise (py_get data ''did'' (PStr ''unknown'')) w (\<lambda>did.
     or_raise (is_language_allowed p langs) w (\<lambda>allowed.
     if \<not> allowed then (None, w) else
     or_raise (py_get data ''time_us'' PNone) w (\<lambda>time_us.
     let (r, w1) = get_timestamp E time_us w in
     or_raise r w1 (\<lambda>timestamp.
     or_raise (py_setitem data ''post_url'' (PStr (profile_url E did rkey))) w1 (\<lambda>data1.
     or_raise (py_setitem data1 ''record_time'' (PDatetime timestamp)) w1 (\<lambda>data2.
     index_data p E data2 w1))))))))))"

text \<open>
  \<^verbatim>\<open>handle_message\<close> (lines 156-162): only \<^verbatim>\<open>JSONDecodeError\<close> is caught here.
\<close>

definition handle_message :: "processor \<Rightarrow> env \<Rightarrow> string \<Rightarrow> world \<Rightarrow> exn option \<times> world" where
  "handle_message p E message w =
     (case (case json_loads E message of
              Inl e \<Rightarrow> (Some e, w)
            | Inr data \<Rightarrow> process_message p E data w) of
        (Some e, w1) \<Rightarrow>
          if e = JSONDecodeError
          then (None, logging ERROR ''Failed to decode JSON message'' w1)
          else (Some e, w1)
      | (None, w1) \<Rightarrow> (None, w1))"

text \<open>
  What one pass of the worker's loop meets: an item of the queue, the one-second timeout
  of \<^verbatim>\<open>wait_for\<close>, the cancellation of the task while it waits, or a call of
  \<^verbatim>\<open>stop\<close> by the shutdown while the worker is suspended.
\<close>

datatype queue_event = Item string | GetTimeout | GetCancelled | StopCalled

datatype worker_status = Polling | Exited | Crashed exn

definition task_done :: "world \<Rightarrow> world" where
  "task_done w = w\<lparr>tasks_done := Suc (tasks_done w)\<rparr>"

text \<open>
  \<^verbatim>\<open>worker\<close> (lines 140-154), run against a finite script of events. \<open>Polling\<close>: the
  script is used up and the loop is still alive; \<open>Exited\<close>: the loop was left
  (\<^verbatim>\<open>running\<close> false, or \<^verbatim>\<open>break\<close>); \<open>Crashed\<close>: an exception left the coroutine.
\<close>

fun worker :: "processor \<Rightarrow> env \<Rightarrow> queue_event list \<Rightarrow> world \<Rightarrow> worker_status \<times> world" where
  "worker p E [] w = (if mp_running p then Polling else Exited, w)"
| "worker p E (ev # evs) w =
     (if \<not> mp_running p then (Exited, w)
      else (case ev of
              GetTimeout \<Rightarrow> worker p E evs w
            | GetCancelled \<Rightarrow> (Exited, logging INFO ''Worker task cancelled. Exiting...'' w)
            | StopCalled \<Rightarrow> worker (p\<lparr>mp_running := False\<rparr>) E evs w
            | Item message \<Rightarrow>
                (case handle_message p E message w of
                   (None, w1) \<Rightarrow> worker p E evs (task_done w1)
                 | (Some e, w1) \<Rightarrow>
                     if is_Exception e
                     then worker p E evs (task_done (logging ERROR ''Error handling message'' w1))
                     else if e = CancelledError
                     then (Exited, logging INFO ''Worker task cancelled. Exiting...'' (task_done w1))
                     else (Crashed e, task_done w1))))"

subsection \<open>WebSocketClient\<close>

record client =
  urls :: "string list"
  current_url_index :: nat
  running :: bool

text \<open>
  What one pass of \<^verbatim>\<open>run\<close> meets: whether the connection was established, the
  messages received on it, how the stream ended (the iterator was exhausted, or an
  exception was raised while connecting or reading), the value \<^verbatim>\<open>random.uniform(0, 1)\<close>
  returned, whether the task was cancelled during \<^verbatim>\<open>asyncio.sleep\<close>, and whether
  \<^verbatim>\<open>stop\<close> was called during the pass.
\<close>

text \<open>\<^verbatim>\<open>WebSocketClient.stop\<close> (lines 120-121).\<close>

definition stop :: "client \<Rightarrow> client" where
  "stop c = c\<lparr>running := False\<rparr>"

datatype ending = CleanClose | Raised exn

record cycle =
  connected :: bool
  received :: "string list"
  ending :: ending
  jitter :: real
  sleep_cancelled :: bool
  stop_called :: bool

text \<open>
  \<^verbatim>\<open>connect_and_listen\<close> (lines 108-118): the exception that leaves it (if any), the
  messages it put into the queue, and its log records.
\<close>

definition connect_and_listen ::
  "string \<Rightarrow> cycle \<Rightarrow> exn option \<times> string list \<times> (log_level \<times> string) list" where
  "connect_and_listen url cy =
     (let puts = (if connected cy then received cy else []);
          l = (INFO, ''Connecting to WebSocket'') #
              (if connected cy then [(INFO, ''Connected to WebSocket'')] else [])
      in case ending cy of
           CleanClose \<Rightarrow> (None, puts, l)
         | Raised e \<Rightarrow>
             if e = TimeoutError
             then (None, puts, l @ [(ERROR, ''Connection attempt timed out.'')])
             else if is_Exception e
             then (None, puts, l @ [(ERROR, ''Unhandled exception'')])
             else (Some e, puts, l))"

text \<open>One pass of the loop as observed: the endpoint used, the messages enqueued, the
  delay slept and the index selected for the next pass.\<close>

record attempt =
  used_url :: string
  enqueued :: "string list"
  delay :: real
  next_index :: nat

datatype run_status = Looping | Stopped | Died exn

text \<open>
  The loop of \<^verbatim>\<open>run\<close> (lines 90-106) from a given \<^verbatim>\<open>retry_delay\<close>, against a
  finite script of passes. \<open>Looping\<close>: the script is used up and the loop is alive;
  \<open>Stopped\<close>: \<^verbatim>\<open>running\<close> was false at the loop head; \<open>Died\<close>: an exception left
  the coroutine (the subscript of line 91 is outside the \<^verbatim>\<open>try\<close>; an exception no
  \<^verbatim>\<open>except\<close> clause matches leaves after the \<^verbatim>\<open>finally\<close> block).
\<close>

fun run_loop ::
  "client \<Rightarrow> int \<Rightarrow> cycle list \<Rightarrow> attempt list \<times> client \<times> int \<times> run_status" where
  "run_loop c retry_delay [] = ([], c, retry_delay, if running c then Looping else Stopped)"
| "run_loop c retry_delay (cy # cys) =
     (if \<not> running c then ([], c, retry_delay, Stopped)
      else if length (urls c) \<le> current_url_index c then ([], c, retry_delay, Died IndexError)
      else
        (let current_url = urls c ! current_url_index c;
             (raised, puts, l) = connect_and_listen current_url cy;
             retry_delay1 = (if raised = None then 1 else retry_delay);
             c0 = (if stop_called cy then stop c else c);
             c1 = c0\<lparr>current_url_index := (current_url_index c + 1) mod length (urls c)\<rparr>;
             a = \<lparr>used_url = current_url, enqueued = puts,
                  delay = of_int retry_delay1 + jitter cy,
                  next_index = current_url_index c1\<rparr>
         in if sleep_cancelled cy then ([a], c1, retry_delay1, Died CancelledError)
            else
              (let retry_delay2 = min (retry_delay1 * 2) 60
               in case raised of
                    None \<Rightarrow>
                      (let (as, r) = run_loop c1 retry_delay2 cys in (a # as, r))
                  | Some e \<Rightarrow>
                      if is_Exception e
                      then (let (as, r) = run_loop c1 retry_delay2 cys in (a # as, r))
                      else ([a], c1, retry_delay2, Died e))))"

text \<open>\<^verbatim>\<open>run\<close>: \<^verbatim>\<open>retry_delay = 1\<close> (line 89), then the loop.\<close>

definition run :: "client \<Rightarrow> cycle list \<Rightarrow> attempt list \<times> client \<times> int \<times> run_status" where
  "run c cys = run_loop c 1 cys"

text \<open>The client \<^verbatim>\<open>main\<close> builds over a pool (lines 82-86, 238).\<close>

definition WebSocketClient :: "string list \<Rightarrow> client" where
  "WebSocketClient pool = \<lparr>urls = pool, current_url_index = 0, running = True\<rparr>"

definition EXTERNAL_WS_URLS :: "string list" where
  "EXTERNAL_WS_URLS =
     [''wss://jetstream1.us-east.bsky.network/subscribe?wantedCollections=app.bsky.feed.post'',
      ''wss://jetstream2.us-east.bsky.network/subscribe?wantedCollections=app.bsky.feed.post'',
      ''wss://jetstream1.us-west.bsky.network/subscribe?wantedCollections=app.bsky.feed.post'',
      ''wss://jetstream2.us-west.bsky.network/subscribe?wantedCollections=app.bsky.feed.post'']"

subsection \<open>The ingest queue\<close>

text \<open>
  \<^verbatim>\<open>asyncio.Queue(maxsize)\<close>: a FIFO that is full when \<^verbatim>\<open>maxsize\<close> is positive and
  reached. \<^verbatim>\<open>await put(m)\<close> returns once the item is appended and stays suspended
  while the queue is full; \<^verbatim>\<open>await get()\<close> returns the oldest item and stays
  suspended while the queue is empty.
\<close>

record queue =
  items :: "string list"
  maxsize :: int

definition full :: "queue \<Rightarrow> bool" where
  "full q = (0 < maxsize q \<and> maxsize q \<le> int (length (items q)))"

datatype 'a awaited = Suspended | Returned 'a

definition put :: "queue \<Rightarrow> string \<Rightarrow> queue awaited" where
  "put q m = (if full q then Suspended else Returned (q\<lparr>items := items q @ [m]\<rparr>))"

definition get :: "queue \<Rightarrow> (string \<times> queue) awaited" where
  "get q = (case items q of [] \<Rightarrow> Suspended | m # ms \<Rightarrow> Returned (m, q\<lparr>items := ms\<rparr>))"

text \<open>The queue \<^verbatim>\<open>main\<close> creates (line 237).\<close>

definition message_queue :: queue where
  "message_queue = \<lparr>items = [], maxsize = 100000\<rparr>"

text \<open>
  The producer and the consumers around the queue: \<open>incoming\<close> are the messages the
  connection has yet to hand to \<^verbatim>\<open>put\<close> (line 113-114), in order; \<open>taken\<close> are the
  messages the workers got (line 143), in order. A step is a \<^verbatim>\<open>put\<close> or a
  \<^verbatim>\<open>get\<close> that returns; a suspended call is no step and changes nothing.
\<close>

record pipeline =
  shared_queue :: queue
  incoming :: "string list"
  taken :: "string list"

inductive step :: "pipeline \<Rightarrow> pipeline \<Rightarrow> bool" where
  producer_put:
    "incoming s = m # ms \<Longrightarrow> put (shared_queue s) m = Returned q' \<Longrightarrow>
     step s (s\<lparr>shared_queue := q', incoming := ms\<rparr>)"
| worker_get:
    "get (shared_queue s) = Returned (m, q') \<Longrightarrow>
     step s (s\<lparr>shared_queue := q', taken := taken s @ [m]\<rparr>)"

definition start :: "string list \<Rightarrow> pipeline" where
  "start stream = \<lparr>shared_queue = message_queue, incoming = stream, taken = []\<rparr>"

inductive reachable :: "string list \<Rightarrow> pipeline \<Rightarrow> bool" where
  reachable_start: "reachable stream (start stream)"
| reachable_step: "reachable stream s \<Longrightarrow> step s s' \<Longrightarrow> reachable stream s'"

subsection \<open>The configuration of main, and sample inputs\<close>

text \<open>\<^verbatim>\<open>LANGUAGE_FILTER\<close> (line 26) and the constructor of lines 126-138
  (\<^verbatim>\<open>language_filter or []\<close> of a list is the list).\<close>

definition LANGUAGE_FILTER :: "string list" where
  "LANGUAGE_FILTER = []"

definition MessageProcessor ::
  "string list \<Rightarrow> (pyval \<Rightarrow> pyval \<Rightarrow> exn option) option \<Rightarrow> processor" where
  "MessageProcessor langs client = \<lparr>language_filter = langs, es_client = client, mp_running = True\<rparr>"

text \<open>A sink that accepts every write, and one that is unreachable.\<close>

definition accepting :: "pyval \<Rightarrow> pyval \<Rightarrow> exn option" where
  "accepting doc_id document = None"

definition unreachable :: "pyval \<Rightarrow> pyval \<Rightarrow> exn option" where
  "unreachable doc_id document = Some ConnectionError"

text \<open>
  A sample environment. The clock reads 1730000000 s. The conversion of a quotient
  \<open>q\<close> (seconds) raises \<^verbatim>\<open>OverflowError\<close> beyond the range of a 64-bit
  \<^verbatim>\<open>time_t\<close>, \<^verbatim>\<open>ValueError\<close> outside the years 1 to 9999, and is exact otherwise.
  The only text that decodes is \<^verbatim>\<open>{}\<close>.
\<close>

definition sample_fromtimestamp :: "rat \<Rightarrow> exn + datetime" where
  "sample_fromtimestamp q =
     (if q < - (2 ^ 63) \<or> 2 ^ 63 \<le> q then Inl OverflowError
      else if q < - 62135596800 \<or> 253402300800 \<le> q then Inl ValueError
      else Inr (UtcMicros (floor (q * 1000000))))"

definition env0 :: env where
  "env0 = \<lparr>json_loads = (\<lambda>s. if s = ''{}'' then Inr (PDict []) else Inl JSONDecodeError),
            utc_now = UtcMicros 1730000000000000,
            fromtimestamp = sample_fromtimestamp,
            py_repr = (\<lambda>v. ''...'')\<rparr>"

text \<open>Sample events: a post tagged \<^verbatim>\<open>["en", "fr"]\<close>, one tagged \<^verbatim>\<open>["nl"]\<close>, and one
  whose record has no \<^verbatim>\<open>langs\<close>.\<close>

definition record_en_fr :: "(string \<times> pyval) list" where
  "record_en_fr = [(''text'', PStr ''hi''), (''langs'', PList [PStr ''en'', PStr ''fr''])]"

definition commit_en_fr :: "(string \<times> pyval) list" where
  "commit_en_fr = [(''rkey'', PStr ''xyz''), (''cid'', PStr ''c1''), (''record'', PDict record_en_fr)]"

definition event_en_fr :: "(string \<times> pyval) list" where
  "event_en_fr = [(''did'', PStr ''did:abc''), (''time_us'', PInt 1700000000000000),
                  (''commit'', PDict commit_en_fr)]"

definition record_nl :: "(string \<times> pyval) list" where
  "record_nl = [(''text'', PStr ''hoi''), (''langs'', PList [PStr ''nl''])]"

definition commit_nl :: "(string \<times> pyval) list" where
  "commit_nl = [(''rkey'', PStr ''xyz''), (''cid'', PStr ''c2''), (''record'', PDict record_nl)]"

definition event_nl :: "(string \<times> pyval) list" where
  "event_nl = [(''did'', PStr ''did:abc''), (''time_us'', PInt 1700000000000000),
               (''commit'', PDict commit_nl)]"

definition record_untagged :: "(string \<times> pyval) list" where
  "record_untagged = [(''text'', PStr ''hi'')]"

definition commit_untagged :: "(string \<times> pyval) list" where
  "commit_untagged = [(''rkey'', PStr ''xyz''), (''cid'', PStr ''c3''), (''record'', PDict record_untagged)]"

definition event_untagged :: "(string \<times> pyval) list" where
  "event_untagged = [(''did'', PStr ''did:abc''), (''time_us'', PInt 1700000000000000),
                     (''commit'', PDict commit_untagged)]"

text \<open>Two events whose \<^verbatim>\<open>cid\<close> is the empty string, and two events without a
  commit.\<close>

definition event_blank_cid_a :: "(string \<times> pyval) list" where
  "event_blank_cid_a = [(''did'', PStr ''did:a''), (''time_us'', PInt 1700000000000000),
                        (''commit'', PDict [(''rkey'', PStr ''r1''), (''cid'', PStr [])])]"

definition event_blank_cid_b :: "(string \<times> pyval) list" where
  "event_blank_cid_b = [(''did'', PStr ''did:b''), (''time_us'', PInt 1700000000000000),
                        (''commit'', PDict [(''rkey'', PStr ''r1''), (''cid'', PStr [])])]"

definition event_identity :: "(string \<times> pyval) list" where
  "event_identity = [(''did'', PStr ''did:abc''), (''kind'', PStr ''identity'')]"

definition event_account :: "(string \<times> pyval) list" where
  "event_account = [(''did'', PStr ''did:abc''), (''kind'', PStr ''account'')]"

text \<open>The post of \<open>event_en_fr\<close> with \<^verbatim>\<open>time_us\<close> 0, and with \<^verbatim>\<open>time_us\<close> \<open>10 ^ 400\<close>.\<close>

definition event_epoch :: "(string \<times> pyval) list" where
  "event_epoch = [(''did'', PStr ''did:abc''), (''time_us'', PInt 0),
                  (''commit'', PDict commit_en_fr)]"

definition far_future_us :: int where
  "far_future_us = 10 ^ 400"

definition event_far_future :: "(string \<times> pyval) list" where
  "event_far_future = [(''did'', PStr ''did:abc''), (''time_us'', PInt far_future_us),
                       (''commit'', PDict commit_en_fr)]"

text \<open>The sample environment, with a decoder that yields the given value for every text.\<close>

definition decoding :: "pyval \<Rightarrow> env" where
  "decoding data = env0\<lparr>json_loads := (\<lambda>s. Inr data)\<rparr>"

text \<open>A second event with the content identifier of \<open>event_en_fr\<close> and another body, and a
  second event with the empty \<^verbatim>\<open>cid\<close>, the \<^verbatim>\<open>did\<close> and the \<^verbatim>\<open>time_us\<close> of
  \<open>event_blank_cid_a\<close>.\<close>

definition event_c1_edited :: "(string \<times> pyval) list" where
  "event_c1_edited = [(''did'', PStr ''did:other''), (''time_us'', PInt 1700000000000001),
                      (''commit'', PDict [(''rkey'', PStr ''abc''), (''cid'', PStr ''c1''),
                                          (''record'', PDict [(''text'', PStr ''bye'')])])]"

definition event_blank_cid_a2 :: "(string \<times> pyval) list" where
  "event_blank_cid_a2 = [(''did'', PStr ''did:a''), (''time_us'', PInt 1700000000000000),
                         (''commit'', PDict [(''rkey'', PStr ''r2''), (''cid'', PStr [])])]"

text \<open>A pass in which the connection attempt is refused (\<^verbatim>\<open>OSError\<close>), with the given
  jitter, and a pool of four endpoints.\<close>

definition refused :: "real \<Rightarrow> cycle" where
  "refused j = \<lparr>connected = False, received = [], ending = Raised OSError, jitter = j,
                sleep_cancelled = False, stop_called = False\<rparr>"

definition pool4 :: "string list" where
  "pool4 = [''wss://a'', ''wss://b'', ''wss://c'', ''wss://d'']"

text \<open>A backlog of 100000 messages, and the pipeline in which the producer has put the
  messages \<open>xs\<close> and none was taken.\<close>

definition backlog :: "string list" where
  "backlog = replicate 100000 ''m''"

definition filled :: "string list \<Rightarrow> string list \<Rightarrow> pipeline" where
  "filled xs ys = \<lparr>shared_queue = \<lparr>items = xs, maxsize = 100000\<rparr>, incoming = ys, taken = []\<rparr>"

section \<open>Properties\<close>

subsection \<open>Lookups and the steps of process_message\<close>

lemma py_get_Inr_dict:
  "py_get d k dflt = Inr v \<Longrightarrow> \<exists>kvs. d = PDict kvs \<and> v = dict_get kvs k dflt"
  by (cases d) auto

lemma dict_get_update_other:
  "k \<noteq> k' \<Longrightarrow> dict_get (AList.update k v kvs) k' dflt = dict_get kvs k' dflt"
  by (simp add: dict_get_def update_conv')

lemma dict_get_update_same: "dict_get (AList.update k v kvs) k dflt = v"
  by (simp add: dict_get_def update_conv')

lemma process_message_filtered:
  assumes "py_get data ''commit'' (PDict []) = Inr commit"
      and "py_get commit ''record'' (PDict []) = Inr record"
      and "py_get record ''langs'' (PList []) = Inr langs"
      and "is_language_allowed p langs = Inr False"
  shows "process_message p E data w = (None, w)"
proof -
  obtain kvs where d: "data = PDict kvs"
    using assms(1) py_get_Inr_dict by blast
  obtain ckvs where c: "commit = PDict ckvs"
    using assms(2) py_get_Inr_dict by blast
  show ?thesis
    using assms by (simp add: process_message_def or_raise_def d c)
qed

lemma process_message_allowed:
  assumes "py_get (PDict kvs) ''commit'' (PDict []) = Inr (PDict ckvs)"
      and "py_get (PDict ckvs) ''record'' (PDict []) = Inr record"
      and "py_get record ''langs'' (PList []) = Inr langs"
      and "is_language_allowed p langs = Inr True"
      and "get_timestamp E (dict_get kvs ''time_us'' PNone) w = (Inr ts, w1)"
  shows "process_message p E (PDict kvs) w =
         index_data p E
           (PDict (AList.update ''record_time'' (PDatetime ts)
              (AList.update ''post_url''
                 (PStr (profile_url E (dict_get kvs ''did'' (PStr ''unknown''))
                                      (dict_get ckvs ''rkey'' (PStr ''unknown'')))) kvs))) w1"
  using assms by (simp add: process_message_def or_raise_def)

lemma process_message_timestamp_raises:
  assumes "py_get (PDict kvs) ''commit'' (PDict []) = Inr (PDict ckvs)"
      and "py_get (PDict ckvs) ''record'' (PDict []) = Inr record"
      and "py_get record ''langs'' (PList []) = Inr langs"
      and "is_language_allowed p langs = Inr True"
      and "get_timestamp E (dict_get kvs ''time_us'' PNone) w = (Inl e, w1)"
  shows "process_message p E (PDict kvs) w = (Some e, w1)"
  using assms by (simp add: process_message_def or_raise_def)

subsection \<open>Events without language tags\<close>

text \<open>
  C10. For an event whose record has no \<^verbatim>\<open>langs\<close> field (the record may itself be
  absent), \<^verbatim>\<open>langs\<close> is the empty list. With a non-empty allow-list
  \<^verbatim>\<open>process_message\<close> returns with the state untouched: no call of the sink and no log
  record. Hence such an event reaches the sink only when the allow-list is empty.
\<close>

theorem no_langs_field_discarded:
  assumes "py_get data ''commit'' (PDict []) = Inr commit"
      and "py_get commit ''record'' (PDict []) = Inr (PDict rkvs)"
      and "map_of rkvs ''langs'' = None"
  shows "py_get (PDict rkvs) ''langs'' (PList []) = Inr (PList []) \<and>
         (language_filter p \<noteq> [] \<longrightarrow> process_message p E data w = (None, w)) \<and>
         (index_calls (snd (process_message p E data w)) \<noteq> index_calls w
            \<longrightarrow> language_filter p = [])"
proof -
  have langs: "py_get (PDict rkvs) ''langs'' (PList []) = Inr (PList [])"
    using assms(3) by (simp add: dict_get_def)
  have discarded: "process_message p E data w = (None, w)" if "language_filter p \<noteq> []"
  proof -
    have "is_language_allowed p (PList []) = Inr False"
      using that by (simp add: is_language_allowed_def)
    with assms(1,2) langs show ?thesis
      by (rule process_message_filtered)
  qed
  have written: "language_filter p = []"
    if "index_calls (snd (process_message p E data w)) \<noteq> index_calls w"
  proof (rule ccontr)
    assume "language_filter p \<noteq> []"
    then have "process_message p E data w = (None, w)"
      by (rule discarded)
    with that show False
      by simp
  qed
  from langs discarded written show ?thesis
    by blast
qed

theorem no_langs_field_discarded_witness:
  "py_get (PDict event_untagged) ''commit'' (PDict []) = Inr (PDict commit_untagged) \<and>
   py_get (PDict commit_untagged) ''record'' (PDict []) = Inr (PDict record_untagged) \<and>
   map_of record_untagged ''langs'' = None \<and>
   language_filter (MessageProcessor [''en''] (Some accepting)) \<noteq> [] \<and>
   process_message (MessageProcessor [''en''] (Some accepting)) env0 (PDict event_untagged) world0
     = (None, world0)"
proof -
  have h1: "py_get (PDict event_untagged) ''commit'' (PDict []) = Inr (PDict commit_untagged)"
    by (simp add: event_untagged_def dict_get_def)
  have h2: "py_get (PDict commit_untagged) ''record'' (PDict []) = Inr (PDict record_untagged)"
    by (simp add: commit_untagged_def dict_get_def)
  have h3: "map_of record_untagged ''langs'' = None"
    by (simp add: record_untagged_def)
  have h4: "language_filter (MessageProcessor [''en''] (Some accepting)) \<noteq> []"
    by (simp add: MessageProcessor_def)
  from no_langs_field_discarded [OF h1 h2 h3, of "MessageProcessor [''en''] (Some accepting)" env0 world0]
    h1 h2 h3 h4
  show ?thesis
    by simp
qed

subsection \<open>Document ids\<close>

lemma doc_id_truthy:
  "commit_cid data = Inr c \<Longrightarrow> truthy c \<Longrightarrow> doc_id_of E data = Inr c"
  by (simp add: doc_id_of_def)

lemma doc_id_falsy:
  "commit_cid data = Inr c \<Longrightarrow> \<not> truthy c \<Longrightarrow> doc_id_of E data = composite_id E data"
  by (simp add: doc_id_of_def)

lemma composite_id_dict:
  "composite_id E (PDict kvs) =
     Inr (PStr (py_format E (dict_get kvs ''did'' (PStr [])) @ ''_'' @
                py_format E (dict_get kvs ''time_us'' (PStr []))))"
  by (simp add: composite_id_def)

lemma composite_id_cong:
  assumes "map_of kvs1 ''did'' = map_of kvs2 ''did''"
      and "map_of kvs1 ''time_us'' = map_of kvs2 ''time_us''"
  shows "composite_id E (PDict kvs1) = composite_id E (PDict kvs2)"
  using assms by (simp add: composite_id_dict dict_get_def)

lemma index_data_accepted:
  assumes "es_client p = Some client" and "doc_id_of E d = Inr i" and "client i d = None"
  shows "index_data p E d w =
           (None, logging INFO ''Indexed document ID''
              (w\<lparr>index_calls := index_calls w @ [(i, d)],
                 es_store := AList.update i d (es_store w)\<rparr>))"
  using assms by (simp add: index_data_def Let_def)

lemma es_store_logging: "es_store (logging l m w) = es_store w"
  by (simp add: logging_def)

lemma index_calls_logging: "index_calls (logging l m w) = index_calls w"
  by (simp add: logging_def)

lemma upsert_twice:
  "map fst (AList.update i d2 (AList.update i d1 al)) = map fst (AList.update i d1 al) \<and>
   map_of (AList.update i d2 (AList.update i d1 al)) i = Some d2"
proof -
  have "i \<in> set (map fst (AList.update i d1 al))"
    by (simp add: update_keys)
  then have "map fst (AList.update i d2 (AList.update i d1 al)) = map fst (AList.update i d1 al)"
    by (subst update_keys) simp
  then show ?thesis
    by (simp add: update_conv')
qed


lemma index_twice_same_id:
  assumes "es_client p = Some client"
      and "doc_id_of E d1 = Inr i" and "doc_id_of E d2 = Inr i"
      and "client i d1 = None" and "client i d2 = None"
  shows "map fst (es_store (snd (index_data p E d2 (snd (index_data p E d1 w)))))
           = map fst (es_store (snd (index_data p E d1 w))) \<and>
         map_of (es_store (snd (index_data p E d2 (snd (index_data p E d1 w))))) i = Some d2 \<and>
         index_calls (snd (index_data p E d2 (snd (index_data p E d1 w))))
           = index_calls w @ [(i, d1), (i, d2)]"
proof -
  have "es_store (snd (index_data p E d1 w)) = AList.update i d1 (es_store w)"
    and "index_calls (snd (index_data p E d1 w)) = index_calls w @ [(i, d1)]"
    using assms by (simp_all add: index_data_accepted es_store_logging index_calls_logging)
  moreover have "es_store (snd (index_data p E d2 (snd (index_data p E d1 w))))
                   = AList.update i d2 (es_store (snd (index_data p E d1 w)))"
    and "index_calls (snd (index_data p E d2 (snd (index_data p E d1 w))))
                   = index_calls (snd (index_data p E d1 w)) @ [(i, d2)]"
    using assms by (simp_all add: index_data_accepted es_store_logging index_calls_logging)
  ultimately show ?thesis
    using upsert_twice [of i d2 d1 "es_store w"] by simp
qed

text \<open>
  C2, as amended. The document id is a function of \<^verbatim>\<open>commit.cid\<close>, \<^verbatim>\<open>did\<close> and
  \<^verbatim>\<open>time_us\<close>: two events with the same truthy \<^verbatim>\<open>cid\<close> get that \<^verbatim>\<open>cid\<close> as id, and
  two events whose \<^verbatim>\<open>cid\<close> is absent or falsy and whose \<^verbatim>\<open>did\<close> and \<^verbatim>\<open>time_us\<close>
  agree both get the composite of \<^verbatim>\<open>did\<close>, an underscore and \<^verbatim>\<open>time_us\<close> as id.
  Writing both to a sink that accepts them leaves one record under that id, the second
  document.
\<close>

theorem document_id_deterministic:
  assumes "commit_cid (PDict kvs1) = Inr c1" and "commit_cid (PDict kvs2) = Inr c2"
      and "(truthy c1 \<and> c1 = c2) \<or>
           (\<not> truthy c1 \<and> \<not> truthy c2 \<and> map_of kvs1 ''did'' = map_of kvs2 ''did'' \<and>
            map_of kvs1 ''time_us'' = map_of kvs2 ''time_us'')"
  shows "\<exists>i. doc_id_of E (PDict kvs1) = Inr i \<and> doc_id_of E (PDict kvs2) = Inr i \<and>
             (truthy c1 \<longrightarrow> i = c1) \<and>
             (\<not> truthy c1 \<longrightarrow>
                i = PStr (py_format E (dict_get kvs1 ''did'' (PStr [])) @ ''_'' @
                          py_format E (dict_get kvs1 ''time_us'' (PStr [])))) \<and>
             (es_client p = Some client \<and> client i (PDict kvs1) = None \<and>
              client i (PDict kvs2) = None \<longrightarrow>
                map fst (es_store (snd (index_data p E (PDict kvs2)
                                      (snd (index_data p E (PDict kvs1) w)))))
                  = map fst (es_store (snd (index_data p E (PDict kvs1) w))) \<and>
                map_of (es_store (snd (index_data p E (PDict kvs2)
                                      (snd (index_data p E (PDict kvs1) w))))) i
                  = Some (PDict kvs2))"
proof -
  obtain i where i: "doc_id_of E (PDict kvs1) = Inr i" "doc_id_of E (PDict kvs2) = Inr i"
    "truthy c1 \<longrightarrow> i = c1"
    "\<not> truthy c1 \<longrightarrow>
       i = PStr (py_format E (dict_get kvs1 ''did'' (PStr [])) @ ''_'' @
                 py_format E (dict_get kvs1 ''time_us'' (PStr [])))"
  proof (cases "truthy c1")
    case True
    with assms have "doc_id_of E (PDict kvs1) = Inr c1" "doc_id_of E (PDict kvs2) = Inr c1"
      by (auto simp: doc_id_truthy)
    then show ?thesis
      using that True by blast
  next
    case False
    with assms have same: "map_of kvs1 ''did'' = map_of kvs2 ''did''"
      "map_of kvs1 ''time_us'' = map_of kvs2 ''time_us''" and c2: "\<not> truthy c2"
      by auto
    have "doc_id_of E (PDict kvs1) = composite_id E (PDict kvs1)"
      using assms(1) False by (rule doc_id_falsy)
    moreover have "doc_id_of E (PDict kvs2) = composite_id E (PDict kvs2)"
      using assms(2) c2 by (rule doc_id_falsy)
    moreover have "composite_id E (PDict kvs1) = composite_id E (PDict kvs2)"
      using same by (rule composite_id_cong)
    ultimately show ?thesis
      using that False by (simp add: composite_id_dict)
  qed
  have stored:
    "map fst (es_store (snd (index_data p E (PDict kvs2) (snd (index_data p E (PDict kvs1) w)))))
       = map fst (es_store (snd (index_data p E (PDict kvs1) w))) \<and>
     map_of (es_store (snd (index_data p E (PDict kvs2) (snd (index_data p E (PDict kvs1) w))))) i
       = Some (PDict kvs2)"
    if "es_client p = Some client \<and> client i (PDict kvs1) = None \<and> client i (PDict kvs2) = None"
  proof -
    from that have a: "es_client p = Some client" "client i (PDict kvs1) = None"
      "client i (PDict kvs2) = None"
      by simp_all
    from index_twice_same_id [OF a(1) i(1) i(2) a(2) a(3), of w] show ?thesis
      by (elim conjE) (rule conjI)
  qed
  show ?thesis
  proof (rule exI [of _ i], intro conjI impI)
    show "doc_id_of E (PDict kvs1) = Inr i" by (rule i(1))
    show "doc_id_of E (PDict kvs2) = Inr i" by (rule i(2))
    show "i = c1" if "truthy c1" using i(3) that by (rule mp)
    show "i = PStr (py_format E (dict_get kvs1 ''did'' (PStr [])) @ ''_'' @
                    py_format E (dict_get kvs1 ''time_us'' (PStr [])))" if "\<not> truthy c1"
      using i(4) that by (rule mp)
  qed (use stored in simp_all)
qed

theorem document_id_deterministic_witness:
  "event_en_fr \<noteq> event_c1_edited \<and>
   commit_cid (PDict event_en_fr) = Inr (PStr ''c1'') \<and>
   commit_cid (PDict event_c1_edited) = Inr (PStr ''c1'') \<and>
   doc_id_of env0 (PDict event_en_fr) = Inr (PStr ''c1'') \<and>
   doc_id_of env0 (PDict event_c1_edited) = Inr (PStr ''c1'') \<and>
   map fst (es_store (snd (index_data (MessageProcessor [] (Some accepting)) env0
              (PDict event_c1_edited)
              (snd (index_data (MessageProcessor [] (Some accepting)) env0
                      (PDict event_en_fr) world0))))) = [PStr ''c1''] \<and>
   map_of (es_store (snd (index_data (MessageProcessor [] (Some accepting)) env0
              (PDict event_c1_edited)
              (snd (index_data (MessageProcessor [] (Some accepting)) env0
                      (PDict event_en_fr) world0)))))
      (PStr ''c1'') = Some (PDict event_c1_edited) \<and>
   event_blank_cid_a \<noteq> event_blank_cid_a2 \<and>
   commit_cid (PDict event_blank_cid_a) = Inr (PStr []) \<and>
   commit_cid (PDict event_blank_cid_a2) = Inr (PStr []) \<and>
   doc_id_of env0 (PDict event_blank_cid_a) = Inr (PStr ''did:a_1700000000000000'') \<and>
   doc_id_of env0 (PDict event_blank_cid_a2) = Inr (PStr ''did:a_1700000000000000'')"
proof -
  let ?p = "MessageProcessor [] (Some accepting)"
  have h1: "commit_cid (PDict event_en_fr) = Inr (PStr ''c1'')"
    by (simp add: commit_cid_def event_en_fr_def commit_en_fr_def dict_get_def)
  have h2: "commit_cid (PDict event_c1_edited) = Inr (PStr ''c1'')"
    by (simp add: commit_cid_def event_c1_edited_def dict_get_def)
  have h3: "(truthy (PStr ''c1'') \<and> PStr ''c1'' = PStr ''c1'') \<or>
           (\<not> truthy (PStr ''c1'') \<and> \<not> truthy (PStr ''c1'') \<and>
            map_of event_en_fr ''did'' = map_of event_c1_edited ''did'' \<and>
            map_of event_en_fr ''time_us'' = map_of event_c1_edited ''time_us'')"
    by simp
  have a: "es_client ?p = Some accepting"
    "accepting i (PDict event_en_fr) = None" "accepting i (PDict event_c1_edited) = None" for i
    by (simp_all add: MessageProcessor_def accepting_def)
  have first: "es_store (snd (index_data ?p env0 (PDict event_en_fr) world0))
                 = [(PStr ''c1'', PDict event_en_fr)]"
    using a(1) doc_id_truthy [OF h1] a(2)
    by (simp add: index_data_accepted es_store_logging world0_def)
  from document_id_deterministic [OF h1 h2 h3, of env0 ?p accepting world0]
  obtain i where i: "doc_id_of env0 (PDict event_en_fr) = Inr i"
    "doc_id_of env0 (PDict event_c1_edited) = Inr i" "i = PStr ''c1''"
    "map fst (es_store (snd (index_data ?p env0 (PDict event_c1_edited)
                (snd (index_data ?p env0 (PDict event_en_fr) world0)))))
       = map fst (es_store (snd (index_data ?p env0 (PDict event_en_fr) world0)))"
    "map_of (es_store (snd (index_data ?p env0 (PDict event_c1_edited)
                (snd (index_data ?p env0 (PDict event_en_fr) world0))))) i
       = Some (PDict event_c1_edited)"
    using a by auto
  have d1: "event_en_fr \<noteq> event_c1_edited"
    by (simp add: event_en_fr_def event_c1_edited_def)
  have k1: "commit_cid (PDict event_blank_cid_a) = Inr (PStr [])"
    by (simp add: commit_cid_def event_blank_cid_a_def dict_get_def)
  have k2: "commit_cid (PDict event_blank_cid_a2) = Inr (PStr [])"
    by (simp add: commit_cid_def event_blank_cid_a2_def dict_get_def)
  have k3: "(truthy (PStr []) \<and> PStr [] = PStr []) \<or>
           (\<not> truthy (PStr []) \<and> \<not> truthy (PStr []) \<and>
            map_of event_blank_cid_a ''did'' = map_of event_blank_cid_a2 ''did'' \<and>
            map_of event_blank_cid_a ''time_us'' = map_of event_blank_cid_a2 ''time_us'')"
    by (simp add: event_blank_cid_a_def event_blank_cid_a2_def)
  have f: "py_format env0 (dict_get event_blank_cid_a ''did'' (PStr [])) @ ''_'' @
           py_format env0 (dict_get event_blank_cid_a ''time_us'' (PStr []))
           = ''did:a_1700000000000000''"
    by (simp add: event_blank_cid_a_def dict_get_def str_int_def)
  from document_id_deterministic [OF k1 k2 k3, of env0 ?p accepting world0]
  obtain j where j: "doc_id_of env0 (PDict event_blank_cid_a) = Inr j"
    "doc_id_of env0 (PDict event_blank_cid_a2) = Inr j"
    "j = PStr (py_format env0 (dict_get event_blank_cid_a ''did'' (PStr [])) @ ''_'' @
               py_format env0 (dict_get event_blank_cid_a ''time_us'' (PStr [])))"
    by auto
  have d2: "event_blank_cid_a \<noteq> event_blank_cid_a2"
    by (simp add: event_blank_cid_a_def event_blank_cid_a2_def)
  from j f have j': "doc_id_of env0 (PDict event_blank_cid_a) = Inr (PStr ''did:a_1700000000000000'')"
    "doc_id_of env0 (PDict event_blank_cid_a2) = Inr (PStr ''did:a_1700000000000000'')"
    by simp_all
  from i first have s: "doc_id_of env0 (PDict event_en_fr) = Inr (PStr ''c1'')"
    "doc_id_of env0 (PDict event_c1_edited) = Inr (PStr ''c1'')"
    "map fst (es_store (snd (index_data ?p env0 (PDict event_c1_edited)
                (snd (index_data ?p env0 (PDict event_en_fr) world0))))) = [PStr ''c1'']"
    "map_of (es_store (snd (index_data ?p env0 (PDict event_c1_edited)
                (snd (index_data ?p env0 (PDict event_en_fr) world0))))) (PStr ''c1'')
       = Some (PDict event_c1_edited)"
    by simp_all
  from d1 h1 h2 s d2 k1 k2 j' show ?thesis
    by (intro conjI)
qed

text \<open>
  The claim as stated fails for a \<^verbatim>\<open>cid\<close> that is present and falsy: two events that
  both carry \<^verbatim>\<open>cid = ""\<close> get different ids, neither of which is the \<^verbatim>\<open>cid\<close>.
\<close>

theorem blank_cid_counterexample:
  "commit_cid (PDict event_blank_cid_a) = Inr (PStr []) \<and>
   commit_cid (PDict event_blank_cid_b) = Inr (PStr []) \<and>
   doc_id_of env0 (PDict event_blank_cid_a) = Inr (PStr ''did:a_1700000000000000'') \<and>
   doc_id_of env0 (PDict event_blank_cid_b) = Inr (PStr ''did:b_1700000000000000'')"
  by (simp add: doc_id_of_def commit_cid_def composite_id_def event_blank_cid_a_def
      event_blank_cid_b_def dict_get_def str_int_def)

text \<open>
  C9. When \<^verbatim>\<open>commit.cid\<close> is absent or falsy the id is the text of \<^verbatim>\<open>did\<close>, an
  underscore and the text of \<^verbatim>\<open>time_us\<close>, where an absent field gives the empty text.
  So two events without \<^verbatim>\<open>cid\<close> and \<^verbatim>\<open>time_us\<close> and with the same \<^verbatim>\<open>did\<close> share
  one id, and of two accepted writes the second replaces the first.
\<close>

theorem composite_id_when_cid_falsy:
  assumes "commit_cid (PDict kvs) = Inr c" and "\<not> truthy c"
  shows "doc_id_of E (PDict kvs) =
           Inr (PStr (py_format E (dict_get kvs ''did'' (PStr [])) @ ''_'' @
                      py_format E (dict_get kvs ''time_us'' (PStr [])))) \<and>
         (map_of kvs ''did'' = None \<longrightarrow> py_format E (dict_get kvs ''did'' (PStr [])) = []) \<and>
         (map_of kvs ''time_us'' = None \<longrightarrow>
            py_format E (dict_get kvs ''time_us'' (PStr [])) = []) \<and>
         (commit_cid (PDict kvs') = Inr c' \<and> \<not> truthy c' \<and>
          map_of kvs ''time_us'' = None \<and> map_of kvs' ''time_us'' = None \<and>
          map_of kvs' ''did'' = map_of kvs ''did'' \<longrightarrow>
            doc_id_of E (PDict kvs') = doc_id_of E (PDict kvs) \<and>
            (es_client p = Some client \<and>
             (\<forall>i. client i (PDict kvs) = None \<and> client i (PDict kvs') = None) \<longrightarrow>
               map_of (es_store (snd (index_data p E (PDict kvs')
                                     (snd (index_data p E (PDict kvs) w)))))
                 (PStr (py_format E (dict_get kvs ''did'' (PStr [])) @ ''_''))
                 = Some (PDict kvs')))"
proof -
  have fmt: "doc_id_of E (PDict kvs) =
           Inr (PStr (py_format E (dict_get kvs ''did'' (PStr [])) @ ''_'' @
                      py_format E (dict_get kvs ''time_us'' (PStr []))))"
    using assms by (simp add: doc_id_falsy composite_id_dict)
  have absent: "py_format E (dict_get kvs k (PStr [])) = []" if "map_of kvs k = None" for k
    using that by (simp add: dict_get_def)
  have collide: "doc_id_of E (PDict kvs') = doc_id_of E (PDict kvs)"
    if "commit_cid (PDict kvs') = Inr c'" "\<not> truthy c'"
       "map_of kvs' ''time_us'' = map_of kvs ''time_us''" "map_of kvs' ''did'' = map_of kvs ''did''"
  proof -
    have "doc_id_of E (PDict kvs') = composite_id E (PDict kvs')"
      using that(1,2) by (rule doc_id_falsy)
    also have "\<dots> = composite_id E (PDict kvs)"
      using that(4,3) by (rule composite_id_cong)
    also have "\<dots> = doc_id_of E (PDict kvs)"
      using assms by (simp add: doc_id_falsy)
    finally show ?thesis .
  qed
  have overwrite: "map_of (es_store (snd (index_data p E (PDict kvs')
                                     (snd (index_data p E (PDict kvs) w)))))
                 (PStr (py_format E (dict_get kvs ''did'' (PStr [])) @ ''_''))
                 = Some (PDict kvs')"
    if "doc_id_of E (PDict kvs') = doc_id_of E (PDict kvs)" "map_of kvs ''time_us'' = None"
       "es_client p = Some client"
       "\<forall>i. client i (PDict kvs) = None \<and> client i (PDict kvs') = None"
  proof -
    let ?i = "PStr (py_format E (dict_get kvs ''did'' (PStr [])) @ ''_'')"
    have "doc_id_of E (PDict kvs) = Inr ?i"
      using fmt absent [OF that(2)] by simp
    moreover from this that(1) have "doc_id_of E (PDict kvs') = Inr ?i"
      by simp
    moreover from that(4) have "client ?i (PDict kvs) = None" "client ?i (PDict kvs') = None"
      by simp_all
    ultimately have "map_of (es_store (snd (index_data p E (PDict kvs')
                                     (snd (index_data p E (PDict kvs) w))))) ?i = Some (PDict kvs')"
      using index_twice_same_id [of p client E "PDict kvs" ?i "PDict kvs'" w] that(3) by simp
    then show ?thesis .
  qed
  show ?thesis
  proof (intro conjI impI)
    show "doc_id_of E (PDict kvs) =
           Inr (PStr (py_format E (dict_get kvs ''did'' (PStr [])) @ ''_'' @
                      py_format E (dict_get kvs ''time_us'' (PStr []))))"
      by (rule fmt)
    show "py_format E (dict_get kvs ''did'' (PStr [])) = []" if "map_of kvs ''did'' = None"
      using that by (rule absent)
    show "py_format E (dict_get kvs ''time_us'' (PStr [])) = []" if "map_of kvs ''time_us'' = None"
      using that by (rule absent)
    assume h: "commit_cid (PDict kvs') = Inr c' \<and> \<not> truthy c' \<and>
          map_of kvs ''time_us'' = None \<and> map_of kvs' ''time_us'' = None \<and>
          map_of kvs' ''did'' = map_of kvs ''did''"
    then show same: "doc_id_of E (PDict kvs') = doc_id_of E (PDict kvs)"
      by (intro collide) simp_all
    assume "es_client p = Some client \<and>
             (\<forall>i. client i (PDict kvs) = None \<and> client i (PDict kvs') = None)"
    with same h show "map_of (es_store (snd (index_data p E (PDict kvs')
                                     (snd (index_data p E (PDict kvs) w)))))
                 (PStr (py_format E (dict_get kvs ''did'' (PStr [])) @ ''_''))
                 = Some (PDict kvs')"
      by (intro overwrite) simp_all
  qed
qed

theorem composite_id_when_cid_falsy_witness:
  "commit_cid (PDict event_identity) = Inr PNone \<and> \<not> truthy PNone \<and>
   commit_cid (PDict event_account) = Inr PNone \<and>
   event_identity \<noteq> event_account \<and>
   doc_id_of env0 (PDict event_identity) = Inr (PStr ''did:abc_'') \<and>
   doc_id_of env0 (PDict event_account) = Inr (PStr ''did:abc_'') \<and>
   map_of (es_store (snd (index_data (MessageProcessor [] (Some accepting)) env0 (PDict event_account)
             (snd (index_data (MessageProcessor [] (Some accepting)) env0 (PDict event_identity) world0)))))
      (PStr ''did:abc_'') = Some (PDict event_account)"
proof -
  have h1: "commit_cid (PDict event_identity) = Inr PNone"
    by (simp add: commit_cid_def event_identity_def dict_get_def)
  have h2: "\<not> truthy PNone"
    by simp
  have h3: "commit_cid (PDict event_account) = Inr PNone"
    by (simp add: commit_cid_def event_account_def dict_get_def)
  have m: "map_of event_identity ''time_us'' = None" "map_of event_account ''time_us'' = None"
    "map_of event_account ''did'' = map_of event_identity ''did''"
    "dict_get event_identity ''did'' (PStr []) = PStr ''did:abc''"
    by (simp_all add: event_identity_def event_account_def dict_get_def)
  have a: "es_client (MessageProcessor [] (Some accepting)) = Some accepting"
    "\<forall>i. accepting i (PDict event_identity) = None \<and> accepting i (PDict event_account) = None"
    by (simp_all add: MessageProcessor_def accepting_def)
  have d: "event_identity \<noteq> event_account"
    by (simp add: event_identity_def event_account_def)
  from composite_id_when_cid_falsy [OF h1 h2, of env0 event_account PNone
      "MessageProcessor [] (Some accepting)" accepting world0]
  show ?thesis
    using h1 h2 h3 m a d by simp
qed

subsection \<open>What handling one message can do\<close>

lemma index_calls_task_done: "index_calls (task_done w) = index_calls w"
  by (simp add: task_done_def)

lemma get_timestamp_frame:
  "index_calls (snd (get_timestamp E t w)) = index_calls w \<and>
   es_store (snd (get_timestamp E t w)) = es_store w"
  by (simp add: get_timestamp_def logging_def split: sum.splits)

lemma get_timestamp_raises:
  assumes "fst (get_timestamp E t w) = Inl e"
  shows "(\<exists>q. fromtimestamp E q = Inl e) \<and> \<not> is_ValueError e \<and> e \<noteq> TypeError \<and>
         snd (get_timestamp E t w) = w"
proof -
  from assms have "truthy t"
    by (auto simp: get_timestamp_def split: if_splits)
  show ?thesis
  proof (cases "true_divide_million t")
    case (Inl e')
    then have "e' = TypeError"
      by (cases t) auto
    with Inl \<open>truthy t\<close> assms show ?thesis
      by (simp add: get_timestamp_def)
  next
    case (Inr q)
    with \<open>truthy t\<close> assms show ?thesis
      by (cases "fromtimestamp E q") (auto simp: get_timestamp_def split: if_splits)
  qed
qed

lemma doc_id_of_raises: "doc_id_of E d = Inl e \<Longrightarrow> e = AttributeError"
proof -
  have get: "py_get x k dflt = Inl e \<Longrightarrow> e = AttributeError" for x k dflt
    by (cases x) auto
  assume "doc_id_of E d = Inl e"
  then show ?thesis
    by (auto simp: doc_id_of_def commit_cid_def composite_id_def split: sum.splits if_splits
        dest: get)
qed

lemma index_data_no_client:
  "es_client p = None \<Longrightarrow>
   index_data p E d w = (None, logging ERROR ''Elasticsearch client is not initialized.'' w)"
  by (simp add: index_data_def)

lemma index_data_no_id:
  "es_client p = Some client \<Longrightarrow> doc_id_of E d = Inl e \<Longrightarrow>
   index_data p E d w = (None, logging ERROR ''Failed to index document'' w)"
  by (auto simp: index_data_def dest: doc_id_of_raises)

lemma index_data_rejected:
  "es_client p = Some client \<Longrightarrow> doc_id_of E d = Inr i \<Longrightarrow> client i d = Some e \<Longrightarrow>
   is_Exception e \<Longrightarrow>
   index_data p E d w =
     (None, logging ERROR ''Failed to index document'' (w\<lparr>index_calls := index_calls w @ [(i, d)]\<rparr>))"
  by (simp add: index_data_def Let_def)

lemma index_data_interrupted:
  "es_client p = Some client \<Longrightarrow> doc_id_of E d = Inr i \<Longrightarrow> client i d = Some e \<Longrightarrow>
   \<not> is_Exception e \<Longrightarrow>
   index_data p E d w = (Some e, w\<lparr>index_calls := index_calls w @ [(i, d)]\<rparr>)"
  by (simp add: index_data_def Let_def)

lemma index_data_calls:
  "index_calls (snd (index_data p E d w)) = index_calls w \<or>
   (\<exists>i. index_calls (snd (index_data p E d w)) = index_calls w @ [(i, d)])"
proof (cases "es_client p")
  case None
  then show ?thesis
    by (simp add: index_data_no_client index_calls_logging)
next
  case (Some client)
  show ?thesis
  proof (cases "doc_id_of E d")
    case (Inl e)
    with Some show ?thesis
      by (simp add: index_data_no_id index_calls_logging)
  next
    case (Inr i)
    show ?thesis
    proof (cases "client i d")
      case None
      with Some Inr show ?thesis
        by (simp add: index_data_accepted index_calls_logging)
    next
      case (Some e)
      with \<open>es_client p = Some client\<close> Inr show ?thesis
        by (cases "is_Exception e")
          (simp_all add: index_data_rejected index_data_interrupted index_calls_logging)
    qed
  qed
qed

lemma index_data_raises:
  assumes "fst (index_data p E d w) = Some e"
  shows "\<not> is_Exception e \<and> (\<exists>client i. es_client p = Some client \<and> client i d = Some e)"
proof (cases "es_client p")
  case None
  with assms show ?thesis
    by (simp add: index_data_no_client)
next
  case (Some client)
  show ?thesis
  proof (cases "doc_id_of E d")
    case (Inl e')
    with Some assms show ?thesis
      by (simp add: index_data_no_id)
  next
    case (Inr i)
    show ?thesis
    proof (cases "client i d")
      case None
      with Some Inr assms show ?thesis
        by (simp add: index_data_accepted)
    next
      case c: (Some e')
      with Some Inr assms show ?thesis
        by (cases "is_Exception e'") (auto simp: index_data_rejected index_data_interrupted)
    qed
  qed
qed

lemma is_language_allowed_raises: "is_language_allowed p langs = Inl e \<Longrightarrow> e = TypeError"
  by (cases langs) (auto simp: is_language_allowed_def split: if_splits)

lemma py_get_raises: "py_get x k dflt = Inl e \<Longrightarrow> e = AttributeError"
  by (cases x) auto

lemma process_message_outcomes:
  "(\<exists>e. (e = AttributeError \<or> e = TypeError) \<and> process_message p E data w = (Some e, w)) \<or>
   process_message p E data w = (None, w) \<or>
   (\<exists>e t. fst (get_timestamp E t w) = Inl e \<and> process_message p E data w = (Some e, w)) \<or>
   (\<exists>d t. process_message p E data w = index_data p E d (snd (get_timestamp E t w)))"
proof (cases "py_get data ''commit'' (PDict [])")
  case (Inl e)
  then have "process_message p E data w = (Some AttributeError, w)"
    by (auto simp: process_message_def or_raise_def dest: py_get_raises)
  then show ?thesis
    by blast
next
  case commit: (Inr commit)
  then obtain kvs where data: "data = PDict kvs"
    using py_get_Inr_dict by blast
  show ?thesis
  proof (cases "py_get commit ''record'' (PDict [])")
    case (Inl e)
    with commit have "process_message p E data w = (Some AttributeError, w)"
      by (auto simp: process_message_def or_raise_def dest: py_get_raises)
    then show ?thesis
      by blast
  next
    case rcd: (Inr rcd)
    then obtain ckvs where c: "commit = PDict ckvs"
      using py_get_Inr_dict by blast
    show ?thesis
    proof (cases "py_get rcd ''langs'' (PList [])")
      case (Inl e)
      with commit rcd have "process_message p E data w = (Some AttributeError, w)"
        by (auto simp: process_message_def or_raise_def data c dest: py_get_raises)
      then show ?thesis
        by blast
    next
      case langs: (Inr langs)
      show ?thesis
      proof (cases "is_language_allowed p langs")
        case (Inl e)
        with commit rcd langs have "process_message p E data w = (Some TypeError, w)"
          by (auto simp: process_message_def or_raise_def data c dest: is_language_allowed_raises)
        then show ?thesis
          by blast
      next
        case (Inr allowed)
        show ?thesis
        proof (cases allowed)
          case False
          with commit rcd langs Inr have "process_message p E data w = (None, w)"
            by (intro process_message_filtered) simp_all
          then show ?thesis
            by blast
        next
          case True
          let ?t = "dict_get kvs ''time_us'' PNone"
          show ?thesis
          proof (cases "fst (get_timestamp E ?t w)")
            case (Inl e)
            then have g: "get_timestamp E ?t w = (Inl e, snd (get_timestamp E ?t w))"
              by (metis prod.collapse)
            from Inl have "snd (get_timestamp E ?t w) = w"
              using get_timestamp_raises by blast
            with g have "process_message p E (PDict kvs) w = (Some e, w)"
              using process_message_timestamp_raises [of kvs ckvs rcd langs p E w e w]
                commit rcd langs Inr True by (simp add: data c)
            with Inl show ?thesis
              unfolding data by blast
          next
            case ts: (Inr ts)
            then have g: "get_timestamp E ?t w = (Inr ts, snd (get_timestamp E ?t w))"
              by (metis prod.collapse)
            from commit have a1: "py_get (PDict kvs) ''commit'' (PDict []) = Inr (PDict ckvs)"
              by (simp add: data c)
            from rcd have a2: "py_get (PDict ckvs) ''record'' (PDict []) = Inr rcd"
              by (simp add: c)
            from Inr True have a4: "is_language_allowed p langs = Inr True"
              by simp
            note process_message_allowed [OF a1 a2 langs a4 g]
            then show ?thesis
              unfolding data by blast
          qed
        qed
      qed
    qed
  qed
qed

lemma process_message_calls:
  "index_calls (snd (process_message p E data w)) = index_calls w \<or>
   (\<exists>c. index_calls (snd (process_message p E data w)) = index_calls w @ [c])"
proof -
  have "index_calls (snd (index_data p E d (snd (get_timestamp E t w)))) = index_calls w \<or>
        (\<exists>c. index_calls (snd (index_data p E d (snd (get_timestamp E t w)))) = index_calls w @ [c])"
    for d t
    using index_data_calls [of p E d "snd (get_timestamp E t w)"] get_timestamp_frame [of E t w]
    by auto
  with process_message_outcomes [of p E data w] show ?thesis
    by (elim disjE exE conjE) simp_all
qed

lemma process_message_raises:
  assumes "fst (process_message p E data w) = Some e"
  shows "is_Exception e \<or> (\<exists>q. fromtimestamp E q = Inl e) \<or>
         (\<exists>client i d. es_client p = Some client \<and> client i d = Some e)"
  using process_message_outcomes [of p E data w]
proof (elim disjE exE conjE)
  fix e' t
  assume "fst (get_timestamp E t w) = Inl e'" "process_message p E data w = (Some e', w)"
  with assms show ?thesis
    using get_timestamp_raises [of E t w e'] by auto
next
  fix d t
  assume "process_message p E data w = index_data p E d (snd (get_timestamp E t w))"
  with assms show ?thesis
    using index_data_raises [of p E d "snd (get_timestamp E t w)" e] by auto
qed (use assms in auto)

lemma handle_message_undecodable:
  "json_loads E message = Inl e \<Longrightarrow>
   handle_message p E message w =
     (if e = JSONDecodeError then (None, logging ERROR ''Failed to decode JSON message'' w)
      else (Some e, w))"
  by (simp add: handle_message_def)

lemma handle_message_decoded:
  assumes "json_loads E message = Inr data"
  shows "handle_message p E message w =
     (if fst (process_message p E data w) = Some JSONDecodeError
      then (None, logging ERROR ''Failed to decode JSON message'' (snd (process_message p E data w)))
      else process_message p E data w)"
  using assms by (cases "process_message p E data w") (auto simp: handle_message_def split: option.splits)

lemma handle_message_calls:
  "index_calls (snd (handle_message p E message w)) = index_calls w \<or>
   (\<exists>c. index_calls (snd (handle_message p E message w)) = index_calls w @ [c])"
proof (cases "json_loads E message")
  case (Inl e)
  then show ?thesis
    by (simp add: handle_message_undecodable index_calls_logging)
next
  case (Inr data)
  with process_message_calls [of p E data w] show ?thesis
    by (auto simp: handle_message_decoded index_calls_logging)
qed

lemma handle_message_raises:
  assumes "fst (handle_message p E message w) = Some e"
  shows "is_Exception e \<or> json_loads E message = Inl e \<or> (\<exists>q. fromtimestamp E q = Inl e) \<or>
         (\<exists>client i d. es_client p = Some client \<and> client i d = Some e)"
proof (cases "json_loads E message")
  case (Inl e')
  with assms show ?thesis
    by (auto simp: handle_message_undecodable split: if_splits)
next
  case (Inr data)
  with assms have "fst (process_message p E data w) = Some e"
    by (auto simp: handle_message_decoded split: if_splits)
  then show ?thesis
    using process_message_raises by blast
qed

lemma worker_item:
  assumes "mp_running p"
  shows "worker p E (Item message # evs) w =
     (case fst (handle_message p E message w) of
        None \<Rightarrow> worker p E evs (task_done (snd (handle_message p E message w)))
      | Some e \<Rightarrow>
          if is_Exception e
          then worker p E evs (task_done (logging ERROR ''Error handling message''
                                            (snd (handle_message p E message w))))
          else if e = CancelledError
          then (Exited, logging INFO ''Worker task cancelled. Exiting...''
                          (task_done (snd (handle_message p E message w))))
          else (Crashed e, task_done (snd (handle_message p E message w))))"
  using assms by (cases "handle_message p E message w") (simp split: option.splits)

subsection \<open>Malformed messages and per-message errors\<close>

text \<open>
  C5. When \<^verbatim>\<open>json.loads\<close> raises on a message, the worker records one error in the log
  (\<^verbatim>\<open>handle_message\<close> for a \<^verbatim>\<open>JSONDecodeError\<close>, the worker's own handler for any
  other exception class), makes no call of the sink, acknowledges the item and goes on
  with the rest of its input.
\<close>

theorem malformed_message_dropped:
  assumes "json_loads E message = Inl e" and "is_Exception e" and "mp_running p"
  shows "worker p E (Item message # evs) w =
           worker p E evs (task_done (logging ERROR
              (if e = JSONDecodeError then ''Failed to decode JSON message''
               else ''Error handling message'') w)) \<and>
         index_calls (snd (handle_message p E message w)) = index_calls w \<and>
         es_store (snd (handle_message p E message w)) = es_store w"
  using assms by (simp add: worker_item handle_message_undecodable index_calls_logging
      es_store_logging)

theorem malformed_message_dropped_witness:
  "json_loads env0 ''{ not json'' = Inl JSONDecodeError \<and>
   worker (MessageProcessor [] (Some accepting)) env0 [Item ''{ not json'', GetTimeout] world0 =
     (Polling, \<lparr>index_calls = [], es_store = [],
                logs = [(ERROR, ''Failed to decode JSON message'')], tasks_done = 1\<rparr>)"
proof -
  have h1: "json_loads env0 ''{ not json'' = Inl JSONDecodeError"
    by (simp add: env0_def)
  have h2: "is_Exception JSONDecodeError"
    by simp
  have h3: "mp_running (MessageProcessor [] (Some accepting))"
    by (simp add: MessageProcessor_def)
  from malformed_message_dropped [OF h1 h2 h3, of "[GetTimeout]" world0] h1 h3
  show ?thesis
    by (simp add: task_done_def logging_def world0_def)
qed

text \<open>
  C6. Provided what the environment raises derives from \<^verbatim>\<open>Exception\<close>, handling a
  message never ends the worker: it goes on with the rest of its input after
  acknowledging the item, with an error record added when an exception reached it.
  Handling calls the sink at most once (no retry). A write the sink refuses is caught in
  \<^verbatim>\<open>index_data\<close>: one call, one error record, and no exception leaves.
\<close>

theorem per_message_errors_contained:
  assumes "mp_running p"
      and "\<forall>e. json_loads E message = Inl e \<longrightarrow> is_Exception e"
      and "\<forall>q e. fromtimestamp E q = Inl e \<longrightarrow> is_Exception e"
      and "\<forall>client i d e. es_client p = Some client \<longrightarrow> client i d = Some e \<longrightarrow> is_Exception e"
  shows "worker p E (Item message # evs) w =
           worker p E evs (task_done
             (case fst (handle_message p E message w) of
                None \<Rightarrow> snd (handle_message p E message w)
              | Some e \<Rightarrow> logging ERROR ''Error handling message''
                            (snd (handle_message p E message w)))) \<and>
         (index_calls (snd (handle_message p E message w)) = index_calls w \<or>
          (\<exists>c. index_calls (snd (handle_message p E message w)) = index_calls w @ [c])) \<and>
         (\<forall>client d i e w'.
            es_client p = Some client \<and> doc_id_of E d = Inr i \<and> client i d = Some e \<longrightarrow>
            index_data p E d w' =
              (None, logging ERROR ''Failed to index document''
                       (w'\<lparr>index_calls := index_calls w' @ [(i, d)]\<rparr>)))"
proof (intro conjI allI impI)
  have caught: "is_Exception e" if "fst (handle_message p E message w) = Some e" for e
    using handle_message_raises [OF that] assms(2,3,4) by blast
  show "worker p E (Item message # evs) w =
           worker p E evs (task_done
             (case fst (handle_message p E message w) of
                None \<Rightarrow> snd (handle_message p E message w)
              | Some e \<Rightarrow> logging ERROR ''Error handling message''
                            (snd (handle_message p E message w))))"
  proof (cases "fst (handle_message p E message w)")
    case None
    with assms(1) show ?thesis
      by (simp add: worker_item del: worker.simps)
  next
    case (Some e)
    with caught have "is_Exception e"
      by simp
    with Some assms(1) show ?thesis
      by (simp add: worker_item del: worker.simps)
  qed
  show "index_calls (snd (handle_message p E message w)) = index_calls w \<or>
          (\<exists>c. index_calls (snd (handle_message p E message w)) = index_calls w @ [c])"
    by (rule handle_message_calls)
next
  fix client d i e w'
  assume h: "es_client p = Some client \<and> doc_id_of E d = Inr i \<and> client i d = Some e"
  with assms(4) have "is_Exception e"
    by blast
  with h show "index_data p E d w' =
              (None, logging ERROR ''Failed to index document''
                       (w'\<lparr>index_calls := index_calls w' @ [(i, d)]\<rparr>))"
    by (simp add: index_data_rejected)
qed

lemma sample_fromtimestamp_raises: "sample_fromtimestamp q = Inl e \<Longrightarrow> is_Exception e"
  by (auto simp: sample_fromtimestamp_def split: if_splits)

theorem per_message_errors_contained_witness:
  "mp_running (MessageProcessor [] (Some unreachable)) \<and>
   json_loads env0 ''{}'' = Inr (PDict []) \<and>
   worker (MessageProcessor [] (Some unreachable)) env0 [Item ''{}''] world0 =
     (Polling,
      \<lparr>index_calls =
         [(PStr ''_'',
           PDict [(''post_url'', PStr ''https://bsky.app/profile/unknown/post/unknown''),
                  (''record_time'', PDatetime (UtcMicros 1730000000000000))])],
       es_store = [], logs = [(ERROR, ''Failed to index document'')], tasks_done = 1\<rparr>)"
proof -
  let ?p = "MessageProcessor [] (Some unreachable)"
  let ?d = "PDict [(''post_url'', PStr ''https://bsky.app/profile/unknown/post/unknown''),
                   (''record_time'', PDatetime (UtcMicros 1730000000000000))]"
  have h1: "mp_running ?p"
    by (simp add: MessageProcessor_def)
  have h2: "\<forall>e. json_loads env0 ''{}'' = Inl e \<longrightarrow> is_Exception e"
    by (simp add: env0_def)
  have h3: "\<forall>q e. fromtimestamp env0 q = Inl e \<longrightarrow> is_Exception e"
    by (auto simp: env0_def dest: sample_fromtimestamp_raises)
  have h4: "\<forall>client i d e. es_client ?p = Some client \<longrightarrow> client i d = Some e \<longrightarrow> is_Exception e"
    by (auto simp: MessageProcessor_def unreachable_def)
  have j: "json_loads env0 ''{}'' = Inr (PDict [])"
    by (simp add: env0_def)
  have a: "es_client ?p = Some unreachable" "doc_id_of env0 ?d = Inr (PStr ''_'')"
    "unreachable (PStr ''_'') ?d = Some ConnectionError"
    by (simp_all add: MessageProcessor_def doc_id_of_def commit_cid_def composite_id_def
        dict_get_def unreachable_def)
  note c = per_message_errors_contained [OF h1 h2 h3 h4, of "[]" world0]
  from c a have i: "index_data ?p env0 ?d world0 =
          (None, logging ERROR ''Failed to index document''
                   (world0\<lparr>index_calls := index_calls world0 @ [(PStr ''_'', ?d)]\<rparr>))"
    by blast
  have g: "get_timestamp env0 (dict_get [] ''time_us'' PNone) world0 =
             (Inr (UtcMicros 1730000000000000), world0)"
    by (simp add: get_timestamp_def dict_get_def env0_def)
  have l: "is_language_allowed ?p (PList []) = Inr True"
    by (simp add: is_language_allowed_def MessageProcessor_def)
  have "process_message ?p env0 (PDict []) world0 = index_data ?p env0 ?d world0"
    using process_message_allowed [of "[]" "[]" "PDict []" "PList []" ?p env0 world0 _ world0, OF _ _ _ l g]
    by (simp add: dict_get_def profile_url_def)
  with i j have "handle_message ?p env0 ''{}'' world0 =
          (None, logging ERROR ''Failed to index document''
                   (world0\<lparr>index_calls := index_calls world0 @ [(PStr ''_'', ?d)]\<rparr>))"
    by (simp add: handle_message_decoded)
  with c h1 j show ?thesis
    by (simp add: logging_def world0_def task_done_def MessageProcessor_def)
qed

subsection \<open>The language filter\<close>

text \<open>
  An event whose \<^verbatim>\<open>langs\<close> is a list disjoint from a non-empty allow-list is dropped
  by \<^verbatim>\<open>process_message\<close> with the state untouched: no call of the sink, no log record.
\<close>

lemma disjoint_langs_discarded:
  assumes "py_get data ''commit'' (PDict []) = Inr commit"
      and "py_get commit ''record'' (PDict []) = Inr rcd"
      and "py_get rcd ''langs'' (PList []) = Inr (PList tags)"
      and "language_filter p \<noteq> []"
      and "set tags \<inter> set (map PStr (language_filter p)) = {}"
  shows "process_message p E data w = (None, w)"
proof -
  have "is_language_allowed p (PList tags) = Inr False"
    using assms(4,5) by (auto simp: is_language_allowed_def list_ex_iff)
  with assms(1,2,3) show ?thesis
    by (rule process_message_filtered)
qed

lemma empty_filter_allows: "language_filter p = [] \<Longrightarrow> is_language_allowed p langs = Inr True"
  by (simp add: is_language_allowed_def)

subsection \<open>The timestamp\<close>

lemma get_timestamp_falsy:
  "\<not> truthy t \<Longrightarrow> get_timestamp E t w = (Inr (utc_now E), w)"
  by (simp add: get_timestamp_def)

lemma get_timestamp_not_number:
  "truthy t \<Longrightarrow> true_divide_million t = Inl e \<Longrightarrow>
   get_timestamp E t w = (Inr (utc_now E), logging WARNING ''Invalid timestamp format'' w)"
  by (cases t) (auto simp: get_timestamp_def)

lemma get_timestamp_converted:
  "truthy t \<Longrightarrow> true_divide_million t = Inr q \<Longrightarrow> fromtimestamp E q = Inr x \<Longrightarrow>
   get_timestamp E t w = (Inr x, w)"
  by (simp add: get_timestamp_def)

lemma get_timestamp_invalid:
  "truthy t \<Longrightarrow> true_divide_million t = Inr q \<Longrightarrow> fromtimestamp E q = Inl e \<Longrightarrow>
   is_ValueError e \<or> e = TypeError \<Longrightarrow>
   get_timestamp E t w = (Inr (utc_now E), logging WARNING ''Invalid timestamp format'' w)"
  by (simp add: get_timestamp_def)

lemma get_timestamp_uncaught:
  "truthy t \<Longrightarrow> true_divide_million t = Inr q \<Longrightarrow> fromtimestamp E q = Inl e \<Longrightarrow>
   \<not> is_ValueError e \<Longrightarrow> e \<noteq> TypeError \<Longrightarrow>
   get_timestamp E t w = (Inl e, w)"
  by (simp add: get_timestamp_def)

lemma get_timestamp_value:
  assumes "fst (get_timestamp E t w) = Inr ts"
  shows "(\<not> truthy t \<longrightarrow> ts = utc_now E) \<and>
         (truthy t \<and> true_divide_million t = Inl TypeError \<longrightarrow> ts = utc_now E) \<and>
         (\<forall>q. truthy t \<and> true_divide_million t = Inr q \<longrightarrow>
              (\<forall>x. fromtimestamp E q = Inr x \<longrightarrow> ts = x) \<and>
              (\<forall>e. fromtimestamp E q = Inl e \<longrightarrow> ts = utc_now E))"
proof (intro conjI impI allI)
  assume "\<not> truthy t"
  with assms show "ts = utc_now E"
    by (simp add: get_timestamp_falsy)
next
  assume "truthy t \<and> true_divide_million t = Inl TypeError"
  with assms show "ts = utc_now E"
    by (simp add: get_timestamp_not_number)
next
  fix q x
  assume "truthy t \<and> true_divide_million t = Inr q" "fromtimestamp E q = Inr x"
  with assms show "ts = x"
    by (simp add: get_timestamp_converted)
next
  fix q e
  assume h: "truthy t \<and> true_divide_million t = Inr q" "fromtimestamp E q = Inl e"
  show "ts = utc_now E"
  proof (cases "is_ValueError e \<or> e = TypeError")
    case True
    with h assms show ?thesis
      by (simp add: get_timestamp_invalid)
  next
    case False
    with h have "get_timestamp E t w = (Inl e, w)"
      by (simp add: get_timestamp_uncaught)
    with assms show ?thesis
      by simp
  qed
qed

lemma get_timestamp_returns:
  "(\<exists>ts. fst (get_timestamp E t w) = Inr ts) \<longleftrightarrow>
   \<not> (truthy t \<and> (\<exists>q e. true_divide_million t = Inr q \<and> fromtimestamp E q = Inl e \<and>
                        \<not> is_ValueError e \<and> e \<noteq> TypeError))"
proof (cases "truthy t")
  case False
  then show ?thesis
    by (simp add: get_timestamp_falsy)
next
  case True
  show ?thesis
  proof (cases "true_divide_million t")
    case (Inl e)
    with True show ?thesis
      by (simp add: get_timestamp_not_number)
  next
    case (Inr q)
    show ?thesis
    proof (cases "fromtimestamp E q")
      case (Inl e)
      with True Inr show ?thesis
        by (cases "is_ValueError e \<or> e = TypeError")
          (auto simp: get_timestamp_invalid get_timestamp_uncaught)
    next
      case r: (Inr x)
      with True Inr show ?thesis
        by (simp add: get_timestamp_converted)
    qed
  qed
qed

subsection \<open>The document sent to the sink\<close>

lemma commit_cid_enriched:
  "commit_cid (PDict (AList.update ''record_time'' v (AList.update ''post_url'' u kvs)))
     = commit_cid (PDict kvs)"
  by (simp add: commit_cid_def dict_get_update_other)

lemma composite_id_enriched:
  "composite_id E (PDict (AList.update ''record_time'' v (AList.update ''post_url'' u kvs)))
     = composite_id E (PDict kvs)"
  by (simp add: composite_id_def dict_get_update_other)

lemma doc_id_of_enriched:
  "doc_id_of E (PDict (AList.update ''record_time'' v (AList.update ''post_url'' u kvs)))
     = doc_id_of E (PDict kvs)"
  unfolding doc_id_of_def commit_cid_enriched composite_id_enriched ..

lemma doc_id_of_event:
  assumes "py_get (PDict kvs) ''commit'' (PDict []) = Inr (PDict ckvs)"
  shows "\<exists>i. doc_id_of E (PDict kvs) = Inr i"
proof -
  from assms have "commit_cid (PDict kvs) = Inr (dict_get ckvs ''cid'' PNone)"
    by (simp add: commit_cid_def)
  then show ?thesis
    by (simp add: doc_id_of_def composite_id_dict)
qed

lemma index_data_calls_client:
  assumes "es_client p = Some client" and "doc_id_of E d = Inr i"
  shows "index_calls (snd (index_data p E d w)) = index_calls w @ [(i, d)]"
proof (cases "client i d")
  case None
  with assms show ?thesis
    by (simp add: index_data_accepted index_calls_logging)
next
  case (Some e)
  with assms show ?thesis
    by (cases "is_Exception e")
      (simp_all add: index_data_rejected index_data_interrupted index_calls_logging)
qed

text \<open>
  C7, as amended. For an event (an object whose \<^verbatim>\<open>commit\<close> and \<^verbatim>\<open>record\<close>, when
  present, are objects) that passes the language filter, with the client set and
  \<^verbatim>\<open>get_timestamp\<close> returning, exactly one call of the sink is made. Its document is the
  event with \<^verbatim>\<open>post_url\<close> set to \<^verbatim>\<open>https://bsky.app/profile/<did>/post/<rkey>\<close> and
  \<^verbatim>\<open>record_time\<close> set to the timestamp; its id is the document id of the event. The
  timestamp is the conversion of \<^verbatim>\<open>time_us\<close> when that is truthy and converts, and the
  current time when \<^verbatim>\<open>time_us\<close> is absent or falsy (\<^verbatim>\<open>None\<close>, 0), is not a number, or
  the conversion raises.
\<close>

theorem enriched_document:
  assumes "py_get (PDict kvs) ''commit'' (PDict []) = Inr (PDict ckvs)"
      and "py_get (PDict ckvs) ''record'' (PDict []) = Inr rcd"
      and "py_get rcd ''langs'' (PList []) = Inr langs"
      and "is_language_allowed p langs = Inr True"
      and "es_client p = Some client"
      and "fst (get_timestamp E (dict_get kvs ''time_us'' PNone) w) = Inr ts"
  shows "(\<exists>i. doc_id_of E (PDict kvs) = Inr i \<and>
              index_calls (snd (process_message p E (PDict kvs) w)) =
                index_calls w @
                [(i, PDict (AList.update ''record_time'' (PDatetime ts)
                       (AList.update ''post_url''
                          (PStr (''https://bsky.app/profile/'' @
                                 py_format E (dict_get kvs ''did'' (PStr ''unknown'')) @
                                 ''/post/'' @
                                 py_format E (dict_get ckvs ''rkey'' (PStr ''unknown''))))
                          kvs)))]) \<and>
         (\<not> truthy (dict_get kvs ''time_us'' PNone) \<longrightarrow> ts = utc_now E) \<and>
         (truthy (dict_get kvs ''time_us'' PNone) \<and>
          true_divide_million (dict_get kvs ''time_us'' PNone) = Inl TypeError
            \<longrightarrow> ts = utc_now E) \<and>
         (\<forall>q. truthy (dict_get kvs ''time_us'' PNone) \<and>
              true_divide_million (dict_get kvs ''time_us'' PNone) = Inr q \<longrightarrow>
              (\<forall>x. fromtimestamp E q = Inr x \<longrightarrow> ts = x) \<and>
              (\<forall>e. fromtimestamp E q = Inl e \<longrightarrow> ts = utc_now E))"
proof -
  let ?t = "dict_get kvs ''time_us'' PNone"
  let ?d = "PDict (AList.update ''record_time'' (PDatetime ts)
                       (AList.update ''post_url''
                          (PStr (profile_url E (dict_get kvs ''did'' (PStr ''unknown''))
                                               (dict_get ckvs ''rkey'' (PStr ''unknown''))))
                          kvs))"
  from assms(6) have g: "get_timestamp E ?t w = (Inr ts, snd (get_timestamp E ?t w))"
    by (metis prod.collapse)
  have pm: "process_message p E (PDict kvs) w = index_data p E ?d (snd (get_timestamp E ?t w))"
    using assms(1,2,3,4) g by (rule process_message_allowed)
  obtain i where i: "doc_id_of E (PDict kvs) = Inr i"
    using doc_id_of_event [OF assms(1)] by blast
  then have "doc_id_of E ?d = Inr i"
    by (simp only: doc_id_of_enriched)
  with assms(5) have "index_calls (snd (index_data p E ?d (snd (get_timestamp E ?t w))))
                        = index_calls (snd (get_timestamp E ?t w)) @ [(i, ?d)]"
    by (rule index_data_calls_client)
  with pm have "index_calls (snd (process_message p E (PDict kvs) w)) = index_calls w @ [(i, ?d)]"
    by (simp add: get_timestamp_frame)
  with i have sent: "\<exists>i. doc_id_of E (PDict kvs) = Inr i \<and>
      index_calls (snd (process_message p E (PDict kvs) w)) = index_calls w @ [(i, ?d)]"
    by blast
  from sent get_timestamp_value [OF assms(6)] show ?thesis
    unfolding profile_url_def by (intro conjI) blast+
qed

theorem enriched_document_witness:
  "is_language_allowed (MessageProcessor [''en''] (Some accepting))
      (PList [PStr ''en'', PStr ''fr'']) = Inr True \<and>
   get_timestamp env0 (PInt 1700000000000000) world0 = (Inr (UtcMicros 1700000000000000), world0) \<and>
   index_calls (snd (process_message (MessageProcessor [''en''] (Some accepting)) env0
                       (PDict event_en_fr) world0)) =
     [(PStr ''c1'',
       PDict (AList.update ''record_time'' (PDatetime (UtcMicros 1700000000000000))
                (AList.update ''post_url'' (PStr ''https://bsky.app/profile/did:abc/post/xyz'')
                   event_en_fr)))]"
proof -
  let ?p = "MessageProcessor [''en''] (Some accepting)"
  have h1: "py_get (PDict event_en_fr) ''commit'' (PDict []) = Inr (PDict commit_en_fr)"
    by (simp add: event_en_fr_def dict_get_def)
  have h2: "py_get (PDict commit_en_fr) ''record'' (PDict []) = Inr (PDict record_en_fr)"
    by (simp add: commit_en_fr_def dict_get_def)
  have h3: "py_get (PDict record_en_fr) ''langs'' (PList []) = Inr (PList [PStr ''en'', PStr ''fr''])"
    by (simp add: record_en_fr_def dict_get_def)
  have h4: "is_language_allowed ?p (PList [PStr ''en'', PStr ''fr'']) = Inr True"
    by (simp add: is_language_allowed_def MessageProcessor_def)
  have h5: "es_client ?p = Some accepting"
    by (simp add: MessageProcessor_def)
  have t: "dict_get event_en_fr ''time_us'' PNone = PInt 1700000000000000"
    by (simp add: event_en_fr_def dict_get_def)
  have g: "get_timestamp env0 (PInt 1700000000000000) world0
             = (Inr (UtcMicros 1700000000000000), world0)"
    by (simp add: get_timestamp_def env0_def sample_fromtimestamp_def)
  then have h6: "fst (get_timestamp env0 (dict_get event_en_fr ''time_us'' PNone) world0)
                   = Inr (UtcMicros 1700000000000000)"
    by (simp add: t)
  have d: "dict_get event_en_fr ''did'' (PStr ''unknown'') = PStr ''did:abc''"
    "dict_get commit_en_fr ''rkey'' (PStr ''unknown'') = PStr ''xyz''"
    by (simp_all add: event_en_fr_def commit_en_fr_def dict_get_def)
  have c: "commit_cid (PDict event_en_fr) = Inr (PStr ''c1'')"
    by (simp add: commit_cid_def event_en_fr_def commit_en_fr_def dict_get_def)
  then have i: "doc_id_of env0 (PDict event_en_fr) = Inr (PStr ''c1'')"
    by (simp add: doc_id_truthy)
  from enriched_document [OF h1 h2 h3 h4 h5 h6]
  have "\<exists>i. doc_id_of env0 (PDict event_en_fr) = Inr i \<and>
              index_calls (snd (process_message ?p env0 (PDict event_en_fr) world0)) =
                index_calls world0 @
                [(i, PDict (AList.update ''record_time'' (PDatetime (UtcMicros 1700000000000000))
                       (AList.update ''post_url''
                          (PStr (''https://bsky.app/profile/'' @
                                 py_format env0 (dict_get event_en_fr ''did'' (PStr ''unknown'')) @
                                 ''/post/'' @
                                 py_format env0 (dict_get commit_en_fr ''rkey'' (PStr ''unknown''))))
                          event_en_fr)))]"
    by (rule conjunct1)
  with i d have "index_calls (snd (process_message ?p env0 (PDict event_en_fr) world0)) =
     [(PStr ''c1'',
       PDict (AList.update ''record_time'' (PDatetime (UtcMicros 1700000000000000))
                (AList.update ''post_url'' (PStr ''https://bsky.app/profile/did:abc/post/xyz'')
                   event_en_fr)))]"
    by (auto simp: world0_def)
  with h4 g show ?thesis
    by simp
qed

text \<open>
  The claim as stated fails for \<^verbatim>\<open>time_us = 0\<close>: the field is present and converts (to
  the epoch), yet \<^verbatim>\<open>if time_us:\<close> is false and the document carries the current time.
\<close>

theorem epoch_timestamp_counterexample:
  "map_of event_epoch ''time_us'' = Some (PInt 0) \<and>
   true_divide_million (PInt 0) = Inr 0 \<and>
   fromtimestamp env0 0 = Inr (UtcMicros 0) \<and>
   utc_now env0 = UtcMicros 1730000000000000 \<and>
   index_calls (snd (process_message (MessageProcessor [] (Some accepting)) env0
                       (PDict event_epoch) world0)) =
     [(PStr ''c1'',
       PDict (AList.update ''record_time'' (PDatetime (UtcMicros 1730000000000000))
                (AList.update ''post_url'' (PStr ''https://bsky.app/profile/did:abc/post/xyz'')
                   event_epoch)))]"
proof -
  let ?p = "MessageProcessor [] (Some accepting)"
  let ?d = "PDict (AList.update ''record_time'' (PDatetime (UtcMicros 1730000000000000))
                (AList.update ''post_url'' (PStr ''https://bsky.app/profile/did:abc/post/xyz'')
                   event_epoch))"
  have h1: "py_get (PDict event_epoch) ''commit'' (PDict []) = Inr (PDict commit_en_fr)"
    by (simp add: event_epoch_def dict_get_def)
  have h2: "py_get (PDict commit_en_fr) ''record'' (PDict []) = Inr (PDict record_en_fr)"
    by (simp add: commit_en_fr_def dict_get_def)
  have h3: "py_get (PDict record_en_fr) ''langs'' (PList []) = Inr (PList [PStr ''en'', PStr ''fr''])"
    by (simp add: record_en_fr_def dict_get_def)
  have h4: "is_language_allowed ?p (PList [PStr ''en'', PStr ''fr'']) = Inr True"
    by (simp add: is_language_allowed_def MessageProcessor_def)
  have h5: "es_client ?p = Some accepting"
    by (simp add: MessageProcessor_def)
  have t: "dict_get event_epoch ''time_us'' PNone = PInt 0"
    by (simp add: event_epoch_def dict_get_def)
  have g: "get_timestamp env0 (dict_get event_epoch ''time_us'' PNone) world0
             = (Inr (UtcMicros 1730000000000000), world0)"
    by (simp add: t get_timestamp_def env0_def)
  have d: "profile_url env0 (dict_get event_epoch ''did'' (PStr ''unknown''))
             (dict_get commit_en_fr ''rkey'' (PStr ''unknown''))
           = ''https://bsky.app/profile/did:abc/post/xyz''"
    by (simp add: event_epoch_def commit_en_fr_def dict_get_def profile_url_def)
  have c: "commit_cid (PDict event_epoch) = Inr (PStr ''c1'')"
    by (simp add: commit_cid_def event_epoch_def commit_en_fr_def dict_get_def)
  then have "doc_id_of env0 (PDict event_epoch) = Inr (PStr ''c1'')"
    by (simp add: doc_id_truthy)
  then have i: "doc_id_of env0 ?d = Inr (PStr ''c1'')"
    by (simp only: doc_id_of_enriched)
  have "process_message ?p env0 (PDict event_epoch) world0 = index_data ?p env0 ?d world0"
    using process_message_allowed [OF h1 h2 h3 h4 g] by (simp only: d)
  moreover have "index_calls (snd (index_data ?p env0 ?d world0)) = index_calls world0 @ [(PStr ''c1'', ?d)]"
    using h5 i by (rule index_data_calls_client)
  ultimately have "index_calls (snd (process_message ?p env0 (PDict event_epoch) world0))
                     = [(PStr ''c1'', ?d)]"
    by (simp add: world0_def)
  moreover have "map_of event_epoch ''time_us'' = Some (PInt 0)"
    by (simp add: event_epoch_def)
  moreover have "fromtimestamp env0 0 = Inr (UtcMicros 0)"
    "utc_now env0 = UtcMicros 1730000000000000"
    by (simp_all add: env0_def sample_fromtimestamp_def)
  ultimately show ?thesis
    by simp
qed

subsection \<open>An event the empty allow-list does not get written\<close>

text \<open>
  C3. With an empty allow-list the filter lets every event pass
  (\<open>empty_filter_allows\<close>), and an event disjoint from a non-empty allow-list is dropped
  silently (\<open>disjoint_langs_discarded\<close>). But a passing event is not always written:
  \<^verbatim>\<open>get_timestamp\<close> catches \<^verbatim>\<open>ValueError\<close> and \<^verbatim>\<open>TypeError\<close> only. When the
  conversion of an integer \<^verbatim>\<open>time_us\<close> raises \<^verbatim>\<open>OverflowError\<close> (as
  \<^verbatim>\<open>time_us / 1_000_000\<close> does for \<open>10 ^ 400\<close>), the exception leaves
  \<^verbatim>\<open>process_message\<close> before the sink is called; the worker logs an error and drops the
  event.
\<close>

theorem overflowing_timestamp_not_written:
  assumes "py_get (PDict kvs) ''commit'' (PDict []) = Inr (PDict ckvs)"
      and "py_get (PDict ckvs) ''record'' (PDict []) = Inr rcd"
      and "py_get rcd ''langs'' (PList []) = Inr langs"
      and "language_filter p = []" and "mp_running p"
      and "dict_get kvs ''time_us'' PNone = PInt n" and "n \<noteq> 0"
      and "fromtimestamp E (of_int n / 1000000) = Inl OverflowError"
      and "json_loads E message = Inr (PDict kvs)"
  shows "process_message p E (PDict kvs) w = (Some OverflowError, w) \<and>
         worker p E (Item message # evs) w =
           worker p E evs (task_done (logging ERROR ''Error handling message'' w))"
proof -
  have "get_timestamp E (PInt n) w = (Inl OverflowError, w)"
    using assms(7,8) by (intro get_timestamp_uncaught [where q = "of_int n / 1000000"]) simp_all
  then have "get_timestamp E (dict_get kvs ''time_us'' PNone) w = (Inl OverflowError, w)"
    by (simp only: assms(6))
  with assms(1,2,3) empty_filter_allows [OF assms(4)]
  have pm: "process_message p E (PDict kvs) w = (Some OverflowError, w)"
    by (rule process_message_timestamp_raises)
  with assms(9) have "handle_message p E message w = (Some OverflowError, w)"
    by (simp add: handle_message_decoded)
  with assms(5) pm show ?thesis
    by (simp add: worker_item del: worker.simps)
qed

theorem overflowing_timestamp_not_written_witness:
  "language_filter (MessageProcessor LANGUAGE_FILTER (Some accepting)) = [] \<and>
   map_of event_far_future ''time_us'' = Some (PInt far_future_us) \<and>
   far_future_us = 10 ^ 400 \<and>
   fromtimestamp (decoding (PDict event_far_future)) (of_int far_future_us / 1000000)
     = Inl OverflowError \<and>
   worker (MessageProcessor LANGUAGE_FILTER (Some accepting)) (decoding (PDict event_far_future))
      [Item ''m''] world0 =
     (Polling, \<lparr>index_calls = [], es_store = [],
                logs = [(ERROR, ''Error handling message'')], tasks_done = 1\<rparr>)"
proof -
  let ?p = "MessageProcessor LANGUAGE_FILTER (Some accepting)"
  let ?E = "decoding (PDict event_far_future)"
  have h1: "py_get (PDict event_far_future) ''commit'' (PDict []) = Inr (PDict commit_en_fr)"
    by (simp add: event_far_future_def dict_get_def)
  have h2: "py_get (PDict commit_en_fr) ''record'' (PDict []) = Inr (PDict record_en_fr)"
    by (simp add: commit_en_fr_def dict_get_def)
  have h3: "py_get (PDict record_en_fr) ''langs'' (PList []) = Inr (PList [PStr ''en'', PStr ''fr''])"
    by (simp add: record_en_fr_def dict_get_def)
  have h4: "language_filter ?p = []" and h5: "mp_running ?p"
    by (simp_all add: MessageProcessor_def LANGUAGE_FILTER_def)
  have h6: "dict_get event_far_future ''time_us'' PNone = PInt far_future_us"
    by (simp add: event_far_future_def dict_get_def)
  have h7: "far_future_us \<noteq> 0"
    unfolding far_future_us_def by (rule power_not_zero) simp
  have "(2::rat) ^ 63 \<le> 10 ^ 63"
    by (rule power_mono) simp_all
  also have "\<dots> \<le> 10 ^ 394"
    by (rule power_increasing) simp_all
  also have "\<dots> = 10 ^ 394 * 10 ^ 6 / 1000000"
    by simp
  also have "(10::rat) ^ 394 * 10 ^ 6 = 10 ^ 400"
    by (simp only: flip: power_add) simp
  also have "(10::rat) ^ 400 = of_int far_future_us"
    by (simp only: far_future_us_def of_int_power of_int_numeral)
  finally have big: "(2::rat) ^ 63 \<le> of_int far_future_us / 1000000" .
  have "sample_fromtimestamp (of_int far_future_us / 1000000) = Inl OverflowError"
    unfolding sample_fromtimestamp_def using big by (simp only: if_True simp_thms)
  then have h8: "fromtimestamp ?E (of_int far_future_us / 1000000) = Inl OverflowError"
    by (simp add: decoding_def env0_def)
  have h9: "json_loads ?E ''m'' = Inr (PDict event_far_future)"
    by (simp add: decoding_def)
  have m: "map_of event_far_future ''time_us'' = Some (PInt far_future_us)"
    by (simp add: event_far_future_def)
  from overflowing_timestamp_not_written [OF h1 h2 h3 h4 h5 h6 h7 h8 h9, where evs = "[]" and w = world0]
  have "worker ?p ?E [Item ''m''] world0 =
          worker ?p ?E [] (task_done (logging ERROR ''Error handling message'' world0))"
    by (rule conjunct2)
  with h5 have "worker ?p ?E [Item ''m''] world0 =
     (Polling, \<lparr>index_calls = [], es_store = [],
                logs = [(ERROR, ''Error handling message'')], tasks_done = 1\<rparr>)"
    by (simp add: task_done_def logging_def world0_def)
  with h4 h8 m far_future_us_def show ?thesis
    by (intro conjI)
qed

subsection \<open>The reconnect loop\<close>

lemma connect_and_listen_returns:
  "ending cy = CleanClose \<or> (\<exists>e. ending cy = Raised e \<and> is_Exception e) \<Longrightarrow>
   fst (connect_and_listen url cy) = None"
  by (auto simp: connect_and_listen_def Let_def)

lemma connect_and_listen_raises:
  "fst (connect_and_listen url cy) = Some e \<Longrightarrow> \<not> is_Exception e"
  by (auto simp: connect_and_listen_def Let_def split: ending.splits if_splits)

text \<open>One pass of the loop, for a running client with a valid index.\<close>

lemma run_loop_pass:
  assumes "running c" and "current_url_index c < length (urls c)"
      and "u = urls c ! current_url_index c"
      and "r = fst (connect_and_listen u cy)"
      and "rd1 = (if r = None then 1 else rd)"
      and "c1 = (if stop_called cy then stop c else c)
                  \<lparr>current_url_index := (current_url_index c + 1) mod length (urls c)\<rparr>"
      and "a = \<lparr>used_url = u, enqueued = fst (snd (connect_and_listen u cy)),
                 delay = of_int rd1 + jitter cy,
                 next_index = (current_url_index c + 1) mod length (urls c)\<rparr>"
  shows "run_loop c rd (cy # cys) =
           (if sleep_cancelled cy then ([a], c1, rd1, Died CancelledError)
            else if r = None
            then (a # fst (run_loop c1 (min (rd1 * 2) 60) cys),
                  snd (run_loop c1 (min (rd1 * 2) 60) cys))
            else ([a], c1, min (rd1 * 2) 60, Died (the r)))"
proof (cases "connect_and_listen u cy")
  case (fields r' puts l)
  show ?thesis
  proof (cases r')
    case None
    with fields assms show ?thesis
      by (simp add: Let_def split: prod.splits)
  next
    case (Some e)
    with fields have "\<not> is_Exception e"
      using connect_and_listen_raises [of u cy e] by simp
    with Some fields assms show ?thesis
      by (simp add: Let_def split: prod.splits)
  qed
qed

lemma run_loop_stopped: "\<not> running c \<Longrightarrow> run_loop c rd cys = ([], c, rd, Stopped)"
  by (cases cys) simp_all

text \<open>The index after a run, and the endpoints used, pass by pass.\<close>

lemma run_loop_round_robin:
  assumes "current_url_index c < length (urls c)"
  shows "urls (fst (snd (run_loop c rd cys))) = urls c \<and>
         current_url_index (fst (snd (run_loop c rd cys))) =
           (current_url_index c + length (fst (run_loop c rd cys))) mod length (urls c) \<and>
         (\<forall>k < length (fst (run_loop c rd cys)).
            used_url (fst (run_loop c rd cys) ! k) =
              urls c ! ((current_url_index c + k) mod length (urls c)) \<and>
            next_index (fst (run_loop c rd cys) ! k) =
              (current_url_index c + k + 1) mod length (urls c))"
  using assms
proof (induction cys arbitrary: c rd)
  case Nil
  then show ?case
    by simp
next
  case (Cons cy cys)
  show ?case
  proof (cases "running c")
    case False
    with Cons.prems show ?thesis
      by (simp add: run_loop_stopped)
  next
    case True
    define u where "u = urls c ! current_url_index c"
    define r where "r = fst (connect_and_listen u cy)"
    define rd1 where "rd1 = (if r = None then 1 else rd)"
    define c1 where "c1 = (if stop_called cy then stop c else c)
                  \<lparr>current_url_index := (current_url_index c + 1) mod length (urls c)\<rparr>"
    define a where "a = \<lparr>used_url = u, enqueued = fst (snd (connect_and_listen u cy)),
                 delay = of_int rd1 + jitter cy,
                 next_index = (current_url_index c + 1) mod length (urls c)\<rparr>"
    note pass = run_loop_pass [OF True Cons.prems u_def r_def rd1_def c1_def a_def, of cys]
    have c1: "urls c1 = urls c"
      "current_url_index c1 = (current_url_index c + 1) mod length (urls c)"
      by (simp_all add: c1_def stop_def)
    from Cons.prems have pos: "0 < length (urls c)"
      by (cases "urls c") simp_all
    with c1 have valid: "current_url_index c1 < length (urls c1)"
      by simp
    have a: "used_url a = urls c ! (current_url_index c mod length (urls c))"
      "next_index a = (current_url_index c + 1) mod length (urls c)"
      using Cons.prems by (simp_all add: a_def u_def)
    show ?thesis
    proof (cases "\<not> sleep_cancelled cy \<and> r = None")
      case False
      with pass have "fst (run_loop c rd (cy # cys)) = [a]"
        "fst (snd (run_loop c rd (cy # cys))) = c1"
        by (auto split: if_splits)
      with c1 a show ?thesis
        by simp
    next
      case go: True
      let ?rest = "run_loop c1 (min (rd1 * 2) 60) cys"
      from go pass have tr: "fst (run_loop c rd (cy # cys)) = a # fst ?rest"
        and fin: "fst (snd (run_loop c rd (cy # cys))) = fst (snd ?rest)"
        by simp_all
      note IH = Cons.IH [OF valid, of "min (rd1 * 2) 60"]
      have idx: "((current_url_index c + 1) mod length (urls c) + j) mod length (urls c)
                   = (current_url_index c + Suc j) mod length (urls c)" for j
        by (simp add: mod_add_left_eq)
      have "used_url ((a # fst ?rest) ! k) = urls c ! ((current_url_index c + k) mod length (urls c)) \<and>
            next_index ((a # fst ?rest) ! k) = (current_url_index c + k + 1) mod length (urls c)"
        if "k < length (a # fst ?rest)" for k
      proof (cases k)
        case 0
        with a show ?thesis
          by simp
      next
        case (Suc j)
        with that have "j < length (fst ?rest)"
          by simp
        with IH c1 idx [of j] idx [of "Suc j"] Suc show ?thesis
          by (simp add: mod_add_left_eq)
      qed
      with IH c1 idx [of "length (fst ?rest)"] tr fin show ?thesis
        by simp
    qed
  qed
qed

lemma run_loop_invalid_index:
  "length (urls c) \<le> current_url_index c \<Longrightarrow> fst (run_loop c rd cys) = []"
  by (cases cys) simp_all

text \<open>Every pass of the script is made when nothing stops or cancels the loop and every
  connection ends by a close or an exception.\<close>

lemma run_loop_length:
  assumes "running c" and "current_url_index c < length (urls c)"
      and "\<forall>cy \<in> set cys. \<not> stop_called cy \<and> \<not> sleep_cancelled cy \<and>
             (ending cy = CleanClose \<or> (\<exists>e. ending cy = Raised e \<and> is_Exception e))"
  shows "length (fst (run_loop c rd cys)) = length cys"
  using assms
proof (induction cys arbitrary: c rd)
  case Nil
  then show ?case
    by simp
next
  case (Cons cy cys)
  define u where "u = urls c ! current_url_index c"
  define r where "r = fst (connect_and_listen u cy)"
  define rd1 where "rd1 = (if r = None then 1 else rd)"
  define c1 where "c1 = (if stop_called cy then stop c else c)
                \<lparr>current_url_index := (current_url_index c + 1) mod length (urls c)\<rparr>"
  define a where "a = \<lparr>used_url = u, enqueued = fst (snd (connect_and_listen u cy)),
               delay = of_int rd1 + jitter cy,
               next_index = (current_url_index c + 1) mod length (urls c)\<rparr>"
  note pass = run_loop_pass [OF Cons.prems(1,2) u_def r_def rd1_def c1_def a_def, of cys]
  from Cons.prems(3) have cy: "\<not> stop_called cy" "\<not> sleep_cancelled cy"
    "ending cy = CleanClose \<or> (\<exists>e. ending cy = Raised e \<and> is_Exception e)"
    by simp_all
  then have "r = None"
    unfolding r_def by (intro connect_and_listen_returns)
  with pass cy have tr: "fst (run_loop c rd (cy # cys)) = a # fst (run_loop c1 (min (rd1 * 2) 60) cys)"
    by simp
  from Cons.prems(2) have pos: "0 < length (urls c)"
    by (cases "urls c") simp_all
  with cy Cons.prems(1) have "running c1" "current_url_index c1 < length (urls c1)"
    by (simp_all add: c1_def)
  moreover from Cons.prems(3) have "\<forall>cy \<in> set cys. \<not> stop_called cy \<and> \<not> sleep_cancelled cy \<and>
             (ending cy = CleanClose \<or> (\<exists>e. ending cy = Raised e \<and> is_Exception e))"
    by simp
  ultimately have "length (fst (run_loop c1 (min (rd1 * 2) 60) cys)) = length cys"
    by (rule Cons.IH)
  with tr show ?case
    by simp
qed

text \<open>The delay of a pass whose connection ended by a close or an exception.\<close>

lemma run_loop_delay:
  assumes "k < length (fst (run_loop c rd cys))"
      and "ending (cys ! k) = CleanClose \<or> (\<exists>e. ending (cys ! k) = Raised e \<and> is_Exception e)"
  shows "delay (fst (run_loop c rd cys) ! k) = 1 + jitter (cys ! k)"
  using assms
proof (induction cys arbitrary: c rd k)
  case Nil
  then show ?case
    by simp
next
  case (Cons cy cys)
  from Cons.prems(1) have running: "running c"
    by (rule contrapos_pp) (simp add: run_loop_stopped)
  from Cons.prems(1) have valid: "current_url_index c < length (urls c)"
    by (rule contrapos_pp) (simp add: run_loop_invalid_index)
  define u where "u = urls c ! current_url_index c"
  define r where "r = fst (connect_and_listen u cy)"
  define rd1 where "rd1 = (if r = None then 1 else rd)"
  define c1 where "c1 = (if stop_called cy then stop c else c)
                \<lparr>current_url_index := (current_url_index c + 1) mod length (urls c)\<rparr>"
  define a where "a = \<lparr>used_url = u, enqueued = fst (snd (connect_and_listen u cy)),
               delay = of_int rd1 + jitter cy,
               next_index = (current_url_index c + 1) mod length (urls c)\<rparr>"
  note pass = run_loop_pass [OF running valid u_def r_def rd1_def c1_def a_def, of cys]
  show ?case
  proof (cases k)
    case 0
    with Cons.prems(2) have "r = None"
      unfolding r_def by (intro connect_and_listen_returns) simp
    then have "delay a = 1 + jitter cy"
      by (simp add: a_def rd1_def)
    moreover from pass have "fst (run_loop c rd (cy # cys)) ! 0 = a"
      by (simp split: if_splits)
    ultimately show ?thesis
      using 0 by simp
  next
    case (Suc j)
    let ?rest = "fst (run_loop c1 (min (rd1 * 2) 60) cys)"
    from Suc Cons.prems(1) pass have tr: "fst (run_loop c rd (cy # cys)) = a # ?rest"
      by (auto split: if_splits)
    with Suc Cons.prems(1) have "j < length ?rest"
      by simp
    moreover from Suc Cons.prems(2)
    have "ending (cys ! j) = CleanClose \<or> (\<exists>e. ending (cys ! j) = Raised e \<and> is_Exception e)"
      by simp
    ultimately have "delay (?rest ! j) = 1 + jitter (cys ! j)"
      by (rule Cons.IH)
    with tr Suc show ?thesis
      by simp
  qed
qed

text \<open>Within as many passes as the pool has endpoints, every endpoint is used.\<close>

lemma round_robin_covers:
  assumes "i0 < n" and "j < n"
  shows "\<exists>k < n. (i0 + k) mod n = (j::nat)"
proof (intro exI conjI)
  show "(j + n - i0) mod n < n"
    using assms by simp
  have "(i0 + (j + n - i0) mod n) mod n = (i0 + (j + n - i0)) mod n"
    by (simp add: mod_add_right_eq)
  also have "i0 + (j + n - i0) = j + n"
    using assms by simp
  finally show "(i0 + (j + n - i0) mod n) mod n = j"
    using assms by simp
qed

subsection \<open>Endpoint selection\<close>

text \<open>
  C8. For a client whose index points into its pool, however each pass of \<^verbatim>\<open>run\<close>
  ends, the index advances by one modulo the pool size: the pass numbered \<open>k\<close> uses the
  endpoint at position \<open>(i + k) mod n\<close> and selects \<open>(i + k + 1) mod n\<close> for the next one.
  When nothing stops or cancels the loop and the connections end by a close or an
  exception, every pass of the script is made; and as soon as the passes are as many as
  the endpoints, every endpoint of the pool has been used.
\<close>

theorem endpoint_round_robin:
  assumes "current_url_index c < length (urls c)"
  shows "(\<forall>k < length (fst (run_loop c rd cys)).
            used_url (fst (run_loop c rd cys) ! k) =
              urls c ! ((current_url_index c + k) mod length (urls c)) \<and>
            next_index (fst (run_loop c rd cys) ! k) =
              (current_url_index c + k + 1) mod length (urls c)) \<and>
         current_url_index (fst (snd (run_loop c rd cys))) =
           (current_url_index c + length (fst (run_loop c rd cys))) mod length (urls c) \<and>
         (running c \<and>
          (\<forall>cy \<in> set cys. \<not> stop_called cy \<and> \<not> sleep_cancelled cy \<and>
             (ending cy = CleanClose \<or> (\<exists>e. ending cy = Raised e \<and> is_Exception e)))
            \<longrightarrow> length (fst (run_loop c rd cys)) = length cys) \<and>
         (length (urls c) \<le> length (fst (run_loop c rd cys))
            \<longrightarrow> set (urls c) \<subseteq> used_url ` set (fst (run_loop c rd cys)))"
proof (intro conjI impI)
  note rr = run_loop_round_robin [OF assms, of rd cys]
  from rr show "\<forall>k < length (fst (run_loop c rd cys)).
            used_url (fst (run_loop c rd cys) ! k) =
              urls c ! ((current_url_index c + k) mod length (urls c)) \<and>
            next_index (fst (run_loop c rd cys) ! k) =
              (current_url_index c + k + 1) mod length (urls c)"
    by (elim conjE)
  from rr show "current_url_index (fst (snd (run_loop c rd cys))) =
           (current_url_index c + length (fst (run_loop c rd cys))) mod length (urls c)"
    by (elim conjE)
  show "length (fst (run_loop c rd cys)) = length cys"
    if "running c \<and>
          (\<forall>cy \<in> set cys. \<not> stop_called cy \<and> \<not> sleep_cancelled cy \<and>
             (ending cy = CleanClose \<or> (\<exists>e. ending cy = Raised e \<and> is_Exception e)))"
    using that assms by (intro run_loop_length) simp_all
  show "set (urls c) \<subseteq> used_url ` set (fst (run_loop c rd cys))"
    if long: "length (urls c) \<le> length (fst (run_loop c rd cys))"
  proof
    fix x
    assume "x \<in> set (urls c)"
    then obtain j where j: "j < length (urls c)" "x = urls c ! j"
      by (auto simp: in_set_conv_nth)
    from round_robin_covers [OF assms j(1)]
    obtain k where k: "k < length (urls c)" "(current_url_index c + k) mod length (urls c) = j"
      by blast
    with long have kl: "k < length (fst (run_loop c rd cys))"
      by simp
    with rr k j have "used_url (fst (run_loop c rd cys) ! k) = x"
      by simp
    with kl show "x \<in> used_url ` set (fst (run_loop c rd cys))"
      by (metis imageI nth_mem)
  qed
qed

theorem endpoint_round_robin_witness:
  "current_url_index (WebSocketClient pool4) < length (urls (WebSocketClient pool4)) \<and>
   length (fst (run (WebSocketClient pool4)
                  [refused (1/4), refused (1/2), refused (3/4), refused 0, refused (1/8)])) = 5 \<and>
   map used_url (fst (run (WebSocketClient pool4)
                  [refused (1/4), refused (1/2), refused (3/4), refused 0, refused (1/8)]))
     = [''wss://a'', ''wss://b'', ''wss://c'', ''wss://d'', ''wss://a''] \<and>
   map next_index (fst (run (WebSocketClient pool4)
                  [refused (1/4), refused (1/2), refused (3/4), refused 0, refused (1/8)]))
     = [1, 2, 3, 0, 1] \<and>
   current_url_index (fst (snd (run (WebSocketClient pool4)
                  [refused (1/4), refused (1/2), refused (3/4), refused 0, refused (1/8)]))) = 1"
proof -
  let ?c = "WebSocketClient pool4"
  let ?cys = "[refused (1/4), refused (1/2), refused (3/4), refused 0, refused (1/8)]"
  let ?tr = "fst (run_loop ?c 1 ?cys)"
  have c: "urls ?c = pool4" "current_url_index ?c = 0" "running ?c" "length pool4 = 4"
    by (simp_all add: WebSocketClient_def pool4_def)
  then have h: "current_url_index ?c < length (urls ?c)"
    by simp
  have ok: "\<forall>cy \<in> set ?cys. \<not> stop_called cy \<and> \<not> sleep_cancelled cy \<and>
             (ending cy = CleanClose \<or> (\<exists>e. ending cy = Raised e \<and> is_Exception e))"
    by (simp add: refused_def)
  note t = endpoint_round_robin [OF h, of 1 ?cys]
  from t c(3) ok have len: "length ?tr = 5"
    by simp
  from t have nth: "\<forall>k < length ?tr.
            used_url (?tr ! k) = urls ?c ! ((current_url_index ?c + k) mod length (urls ?c)) \<and>
            next_index (?tr ! k) = (current_url_index ?c + k + 1) mod length (urls ?c)"
    by (rule conjunct1)
  have five: "xs = [xs ! 0, xs ! 1, xs ! 2, xs ! 3, xs ! 4]" if "length xs = 5" for xs :: "'a list"
    using that by (auto simp: list_eq_iff_nth_eq less_Suc_eq numeral_eq_Suc)
  from len have "length (map used_url ?tr) = 5" "length (map next_index ?tr) = 5"
    by simp_all
  note u = five [OF this(1)] and n = five [OF this(2)]
  from nth len c have used: "map used_url ?tr = [''wss://a'', ''wss://b'', ''wss://c'', ''wss://d'', ''wss://a'']"
    by (subst u) (simp add: pool4_def)
  from nth len c have nxt: "map next_index ?tr = [1, 2, 3, 0, 1]"
    by (subst n) simp
  from t len c have fin: "current_url_index (fst (snd (run_loop ?c 1 ?cys))) = 1"
    by simp
  from h len used nxt fin show ?thesis
    unfolding run_def by (intro conjI)
qed

subsection \<open>The delay between passes\<close>

text \<open>
  C1. \<^verbatim>\<open>connect_and_listen\<close> catches every exception that derives from
  \<^verbatim>\<open>Exception\<close>, so it returns whenever the connection ends by a close or by such an
  exception, and \<^verbatim>\<open>run\<close> then sets \<^verbatim>\<open>retry_delay = 1\<close> before it computes the delay.
  The delay of every such pass is \<open>1 + jitter\<close>, however many failures came before it:
  the doubling of line 106 is overwritten before it is used, and the \<^verbatim>\<open>except\<close> clauses of
  \<^verbatim>\<open>run\<close> are never entered.
\<close>

theorem retry_delay_stays_initial:
  assumes "k < length (fst (run c cys))"
      and "ending (cys ! k) = CleanClose \<or> (\<exists>e. ending (cys ! k) = Raised e \<and> is_Exception e)"
  shows "delay (fst (run c cys) ! k) = 1 + jitter (cys ! k)"
  using assms unfolding run_def by (rule run_loop_delay)

theorem retry_delay_stays_initial_witness:
  "length (fst (run (WebSocketClient pool4) [refused (1/4), refused (1/2), refused (3/4)])) = 3 \<and>
   ending (refused (3/4)) = Raised OSError \<and>
   delay (fst (run (WebSocketClient pool4) [refused (1/4), refused (1/2), refused (3/4)]) ! 0) = 5/4 \<and>
   delay (fst (run (WebSocketClient pool4) [refused (1/4), refused (1/2), refused (3/4)]) ! 1) = 3/2 \<and>
   delay (fst (run (WebSocketClient pool4) [refused (1/4), refused (1/2), refused (3/4)]) ! 2) = 7/4"
proof -
  let ?c = "WebSocketClient pool4"
  let ?cys = "[refused (1/4), refused (1/2), refused (3/4)]"
  have c: "running ?c" "current_url_index ?c < length (urls ?c)"
    by (simp_all add: WebSocketClient_def pool4_def)
  have ok: "\<forall>cy \<in> set ?cys. \<not> stop_called cy \<and> \<not> sleep_cancelled cy \<and>
             (ending cy = CleanClose \<or> (\<exists>e. ending cy = Raised e \<and> is_Exception e))"
    by (simp add: refused_def)
  have len: "length (fst (run ?c ?cys)) = 3"
    unfolding run_def using c ok by (subst run_loop_length) simp_all
  have e: "ending (?cys ! k) = CleanClose \<or> (\<exists>e. ending (?cys ! k) = Raised e \<and> is_Exception e)"
    if "k < 3" for k
    using that by (auto simp: refused_def less_Suc_eq numeral_eq_Suc)
  have d0: "delay (fst (run ?c ?cys) ! 0) = 1 + jitter (?cys ! 0)"
    using len e [of 0] by (intro retry_delay_stays_initial) simp_all
  have d1: "delay (fst (run ?c ?cys) ! 1) = 1 + jitter (?cys ! 1)"
    using len e [of 1] by (intro retry_delay_stays_initial) simp_all
  have d2: "delay (fst (run ?c ?cys) ! 2) = 1 + jitter (?cys ! 2)"
    using len e [of 2] by (intro retry_delay_stays_initial) simp_all
  from len d0 d1 d2 show ?thesis
    by (simp add: refused_def)
qed

subsection \<open>The ingest queue\<close>

lemma put_Returned:
  "put q m = Returned q' \<longleftrightarrow> \<not> full q \<and> q' = q\<lparr>items := items q @ [m]\<rparr>"
  by (auto simp: put_def)

lemma put_Suspended: "put q m = Suspended \<longleftrightarrow> full q"
  by (simp add: put_def)

lemma get_Returned:
  "get q = Returned (m, q') \<longleftrightarrow> (\<exists>ms. items q = m # ms \<and> q' = q\<lparr>items := ms\<rparr>)"
  by (cases "items q") (auto simp: get_def)

lemma reachable_invariant:
  assumes "reachable stream s"
  shows "maxsize (shared_queue s) = 100000 \<and>
         length (items (shared_queue s)) \<le> 100000 \<and>
         taken s @ items (shared_queue s) @ incoming s = stream"
  using assms
proof (induction rule: reachable.induct)
  case (reachable_start stream)
  show ?case
    by (simp add: start_def message_queue_def)
next
  case (reachable_step stream s s')
  from reachable_step.hyps(2) reachable_step.IH show ?case
  proof (cases rule: step.cases)
    case (producer_put m ms q')
    then show ?thesis
      using reachable_step.IH by (auto simp: put_Returned full_def)
  next
    case (worker_get m q')
    then show ?thesis
      using reachable_step.IH by (auto simp: get_Returned)
  qed
qed

lemma reachable_filled:
  "length xs \<le> 100000 \<Longrightarrow> reachable (xs @ ys) (filled xs ys)"
proof (induction xs arbitrary: ys rule: rev_induct)
  case Nil
  have "filled [] ys = start ys"
    by (simp add: filled_def start_def message_queue_def)
  then show ?case
    by (simp add: reachable_start)
next
  case (snoc x xs)
  then have r: "reachable (xs @ x # ys) (filled xs (x # ys))"
    by simp
  have "step (filled xs (x # ys))
          ((filled xs (x # ys))\<lparr>shared_queue := \<lparr>items = xs @ [x], maxsize = 100000\<rparr>,
                                 incoming := ys\<rparr>)"
    using snoc.prems by (intro producer_put) (simp_all add: filled_def put_def full_def)
  then have "step (filled xs (x # ys)) (filled (xs @ [x]) ys)"
    by (simp add: filled_def)
  with r show ?case
    by (auto intro: reachable_step)
qed

text \<open>
  C4. In every state the producer and the workers can reach from the empty queue that
  \<^verbatim>\<open>main\<close> creates, the queue holds at most 100000 messages, and the messages taken,
  queued and still to be put are, in order, the messages received: none is dropped. On a
  full queue \<^verbatim>\<open>put\<close> stays suspended; the only steps possible are \<^verbatim>\<open>get\<close>s, which
  leave the producer's message in place, and after any of them the \<^verbatim>\<open>put\<close> returns.
  \<^verbatim>\<open>put\<close> has no other outcome than to stay suspended or to return.
\<close>

theorem queue_bounded_and_lossless:
  assumes "reachable stream s"
  shows "length (items (shared_queue s)) \<le> 100000 \<and>
         taken s @ items (shared_queue s) @ incoming s = stream \<and>
         (\<forall>m. put (shared_queue s) m = Suspended \<or>
              (\<exists>q'. put (shared_queue s) m = Returned q' \<and> items q' = items (shared_queue s) @ [m])) \<and>
         (\<forall>m ms. incoming s = m # ms \<and> length (items (shared_queue s)) = 100000 \<longrightarrow>
              put (shared_queue s) m = Suspended \<and>
              (\<forall>s'. step s s' \<longrightarrow>
                  incoming s' = m # ms \<and>
                  (\<exists>q'. put (shared_queue s') m = Returned q')))"
proof -
  note inv = reachable_invariant [OF assms]
  have outcome: "put (shared_queue s) m = Suspended \<or>
              (\<exists>q'. put (shared_queue s) m = Returned q' \<and> items q' = items (shared_queue s) @ [m])"
    for m
    by (simp add: put_def)
  have blocked: "put (shared_queue s) m = Suspended \<and>
              (\<forall>s'. step s s' \<longrightarrow>
                  incoming s' = m # ms \<and> (\<exists>q'. put (shared_queue s') m = Returned q'))"
    if h: "incoming s = m # ms \<and> length (items (shared_queue s)) = 100000" for m ms
  proof (intro conjI allI impI)
    from h inv show susp: "put (shared_queue s) m = Suspended"
      by (simp add: put_Suspended full_def)
    fix s'
    assume "step s s'"
    then show "incoming s' = m # ms"
    proof (cases rule: step.cases)
      case (producer_put m' ms' q')
      with h susp show ?thesis
        by simp
    next
      case (worker_get m' q')
      with h show ?thesis
        by simp
    qed
    from \<open>step s s'\<close> show "\<exists>q'. put (shared_queue s') m = Returned q'"
    proof (cases rule: step.cases)
      case (producer_put m' ms' q')
      with h susp show ?thesis
        by simp
    next
      case (worker_get m' q')
      with h inv show ?thesis
        by (auto simp: get_Returned put_def full_def)
    qed
  qed
  from inv have p1: "length (items (shared_queue s)) \<le> 100000"
    and p2: "taken s @ items (shared_queue s) @ incoming s = stream"
    by simp_all
  have p3: "\<forall>m. put (shared_queue s) m = Suspended \<or>
              (\<exists>q'. put (shared_queue s) m = Returned q' \<and> items q' = items (shared_queue s) @ [m])"
    by (intro allI) (rule outcome)
  have p4: "\<forall>m ms. incoming s = m # ms \<and> length (items (shared_queue s)) = 100000 \<longrightarrow>
              put (shared_queue s) m = Suspended \<and>
              (\<forall>s'. step s s' \<longrightarrow>
                  incoming s' = m # ms \<and>
                  (\<exists>q'. put (shared_queue s') m = Returned q'))"
    by (intro allI impI) (rule blocked)
  from p1 p2 p3 p4 show ?thesis
    by (intro conjI)
qed

theorem queue_bounded_and_lossless_witness:
  "reachable (backlog @ [''last''])
     (filled (backlog) [''last'']) \<and>
   length (items (shared_queue (filled (backlog) [''last'']))) = 100000 \<and>
   incoming (filled (backlog) [''last'']) = [''last''] \<and>
   put (shared_queue (filled (backlog) [''last''])) ''last'' = Suspended \<and>
   taken (filled (backlog) [''last'']) @
   items (shared_queue (filled (backlog) [''last''])) @
   incoming (filled (backlog) [''last''])
     = backlog @ [''last'']"
proof -
  let ?s = "filled (backlog) [''last'']"
  have b: "length backlog = 100000"
    by (simp only: backlog_def length_replicate)
  have r: "reachable (backlog @ [''last'']) ?s"
    by (rule reachable_filled) (simp only: b order_refl)
  have l: "length (items (shared_queue ?s)) = 100000" "incoming ?s = [''last'']"
    by (simp_all add: filled_def b)
  note t = queue_bounded_and_lossless [OF r]
  from t l have "put (shared_queue ?s) ''last'' = Suspended"
    by blast
  moreover from t have "taken ?s @ items (shared_queue ?s) @ incoming ?s
                          = backlog @ [''last'']"
    by blast
  ultimately show ?thesis
    using r l by (intro conjI)
qed

end
